theory Spec2Isabelle
  imports Complex_Main "HOL-Library.AList" "HOL-Library.Char_ord" "HOL-Library.List_Lexorder"
    "HOL-Library.Sublist"
begin

section \<open>Python values, errors and containers\<close>

text \<open>
  The core of SINGULARITY-DELTA is Python. Floats and ints are modelled as exact rationals
  (rounding, overflow, infinities as stored values and NaN are outside the model); the
  interpreter's recursion limit is a parameter of the one recursive procedure. A raised exception is a value \<open>Inl e\<close>;
  \<open>Dangling\<close> is not a Python exception: it marks a read of a reference that holds no
  object of the expected class, which Python rules out, and keeps the object store total.
\<close>

datatype error =
    ValueError string
  | KeyError string
  | TypeError
  | AttributeError
  | IndexError
  | StopIteration
  | RecursionError
  | ZeroDivisionError
  | Dangling

type_synonym 'a res = "error + 'a"

text \<open>
  A metadata map is \<open>Dict[str, Any]\<close>; the data model names numeric, boolean and string
  values. \<open>bool\<close> is a subclass of \<open>int\<close> in Python, so a boolean reads as 0 or 1.
\<close>

datatype pyval = VNum rat | VBool bool | VStr string

fun num_of :: "pyval \<Rightarrow> rat option" where
  "num_of (VNum x) = Some x"
| "num_of (VBool b) = Some (if b then 1 else 0)"
| "num_of (VStr s) = None"


text \<open>
  A \<open>dict\<close> keeps insertion order, and assigning to a present key keeps its position:
  an association list with \<^const>\<open>AList.update\<close>. A \<open>set\<close> of edge ids is a list
  without duplicates, iterated in insertion order (Python leaves the order open).
\<close>

type_synonym ('k, 'v) dict = "('k \<times> 'v) list"

definition dict_get :: "('k, 'v) dict \<Rightarrow> 'k \<Rightarrow> 'v option" where
  "dict_get d k = map_of d k"

definition dict_has :: "('k, 'v) dict \<Rightarrow> 'k \<Rightarrow> bool" where
  "dict_has d k = (k \<in> set (map fst d))"

definition dict_set :: "'k \<Rightarrow> 'v \<Rightarrow> ('k, 'v) dict \<Rightarrow> ('k, 'v) dict" where
  "dict_set k v d = AList.update k v d"

definition dict_del :: "'k \<Rightarrow> ('k, 'v) dict \<Rightarrow> ('k, 'v) dict" where
  "dict_del k d = AList.delete k d"

definition dict_keys :: "('k, 'v) dict \<Rightarrow> 'k list" where
  "dict_keys d = map fst d"

definition dict_values :: "('k, 'v) dict \<Rightarrow> 'v list" where
  "dict_values d = map snd d"

definition rbind :: "'a res \<Rightarrow> ('a \<Rightarrow> 'b res) \<Rightarrow> 'b res" where
  "rbind m f = (case m of Inl e \<Rightarrow> Inl e | Inr x \<Rightarrow> f x)"


definition set_add :: "'a \<Rightarrow> 'a list \<Rightarrow> 'a list" where
  "set_add x s = (if x \<in> set s then s else s @ [x])"

definition set_discard :: "'a \<Rightarrow> 'a list \<Rightarrow> 'a list" where
  "set_discard x s = filter (\<lambda>y. y \<noteq> x) s"

section \<open>Reality graph (core/reality\_graph/graph\_builder.py)\<close>

datatype NodeType =
    DECISION | CONSEQUENCE | CONSTRAINT | ASSUMPTION | RESOURCE | BEHAVIOR | FAILURE_MODE | POLICY

datatype EdgeType =
    CAUSES | REQUIRES | CONTRADICTS | DEPENDS_ON | ENABLES | WEAKENS | ASSUMES

record Node =
  n_id :: string
  n_type :: NodeType
  n_name :: string
  n_description :: string
  n_metadata :: "(string, pyval) dict"
  n_criticality :: rat

record Edge =
  e_id :: string
  e_source :: string
  e_target :: string
  e_type :: EdgeType
  e_weight :: rat
  e_confidence :: rat
  e_metadata :: "(string, pyval) dict"

record RealityGraph =
  nodes :: "(string, Node) dict"
  edges :: "(string, Edge) dict"
  adjacency :: "(string, string list) dict"
  reverse_adjacency :: "(string, string list) dict"

definition empty_graph :: RealityGraph where
  "empty_graph = \<lparr>nodes = [], edges = [], adjacency = [], reverse_adjacency = []\<rparr>"

text \<open>\<open>add_node\<close> returns its argument; the model returns the graph after the call.\<close>

definition add_node :: "Node \<Rightarrow> RealityGraph \<Rightarrow> RealityGraph" where
  "add_node node g =
    (let g1 = g\<lparr>nodes := dict_set (n_id node) node (nodes g)\<rparr>;
         g2 = (if \<not> dict_has (adjacency g1) (n_id node)
               then g1\<lparr>adjacency := dict_set (n_id node) [] (adjacency g1)\<rparr> else g1);
         g3 = (if \<not> dict_has (reverse_adjacency g2) (n_id node)
               then g2\<lparr>reverse_adjacency := dict_set (n_id node) [] (reverse_adjacency g2)\<rparr>
               else g2)
     in g3)"

text \<open>
  \<open>add_edge\<close> mutates the graph and may raise: the model returns the outcome together with
  the graph as the call leaves it, so that a raise after a partial mutation is visible.
\<close>

definition add_edge :: "Edge \<Rightarrow> RealityGraph \<Rightarrow> Edge res \<times> RealityGraph" where
  "add_edge edge g =
    (if \<not> dict_has (nodes g) (e_source edge)
       then (Inl (ValueError (''Source node '' @ e_source edge @ '' not found'')), g)
     else if \<not> dict_has (nodes g) (e_target edge)
       then (Inl (ValueError (''Target node '' @ e_target edge @ '' not found'')), g)
     else
       let g1 = g\<lparr>edges := dict_set (e_id edge) edge (edges g)\<rparr> in
       case dict_get (adjacency g1) (e_source edge) of
         None \<Rightarrow> (Inl (KeyError (e_source edge)), g1)
       | Some out \<Rightarrow>
           let g2 = g1\<lparr>adjacency :=
                      dict_set (e_source edge) (set_add (e_id edge) out) (adjacency g1)\<rparr> in
           (case dict_get (reverse_adjacency g2) (e_target edge) of
              None \<Rightarrow> (Inl (KeyError (e_target edge)), g2)
            | Some inc \<Rightarrow>
                (Inr edge, g2\<lparr>reverse_adjacency :=
                   dict_set (e_target edge) (set_add (e_id edge) inc) (reverse_adjacency g2)\<rparr>)))"


definition get_edge :: "RealityGraph \<Rightarrow> string \<Rightarrow> Edge option" where
  "get_edge g edge_id = dict_get (edges g) edge_id"

text \<open>\<open>[self.edges[eid] for eid in edge_ids]\<close>: a missing edge id raises KeyError.\<close>

fun lookup_edges :: "(string, Edge) dict \<Rightarrow> string list \<Rightarrow> Edge list res" where
  "lookup_edges d [] = Inr []"
| "lookup_edges d (eid # eids) =
    (case dict_get d eid of
       None \<Rightarrow> Inl (KeyError eid)
     | Some e \<Rightarrow> (case lookup_edges d eids of Inl x \<Rightarrow> Inl x | Inr es \<Rightarrow> Inr (e # es)))"


definition get_incoming_edges :: "RealityGraph \<Rightarrow> string \<Rightarrow> Edge list res" where
  "get_incoming_edges g node_id =
    lookup_edges (edges g)
      (case dict_get (reverse_adjacency g) node_id of None \<Rightarrow> [] | Some s \<Rightarrow> s)"

definition get_nodes_by_type :: "RealityGraph \<Rightarrow> NodeType \<Rightarrow> Node list" where
  "get_nodes_by_type g node_type = filter (\<lambda>n. n_type n = node_type) (dict_values (nodes g))"

definition get_behavior_nodes :: "RealityGraph \<Rightarrow> Node list" where
  "get_behavior_nodes g = get_nodes_by_type g BEHAVIOR"

definition get_decision_nodes :: "RealityGraph \<Rightarrow> Node list" where
  "get_decision_nodes g = get_nodes_by_type g DECISION"

definition get_critical_nodes :: "RealityGraph \<Rightarrow> rat \<Rightarrow> Node list" where
  "get_critical_nodes g threshold =
    filter (\<lambda>n. n_criticality n \<ge> threshold) (dict_values (nodes g))"

subsection \<open>Structural invariant of the data model\<close>

text \<open>
  Every node is stored under its own id and has a forward and a reverse bucket; every edge
  is stored under its own id, has both endpoints in the node collection, sits in the
  forward bucket of its source and the reverse bucket of its target, and in no other
  bucket; buckets hold ids of stored edges only.
\<close>

definition bucket :: "(string, string list) dict \<Rightarrow> string \<Rightarrow> string list" where
  "bucket idx k = (case dict_get idx k of None \<Rightarrow> [] | Some s \<Rightarrow> s)"

definition wf_graph :: "RealityGraph \<Rightarrow> bool" where
  "wf_graph g \<longleftrightarrow>
     distinct (dict_keys (nodes g)) \<and> distinct (dict_keys (edges g)) \<and>
     distinct (dict_keys (adjacency g)) \<and> distinct (dict_keys (reverse_adjacency g)) \<and>
     set (dict_keys (adjacency g)) = set (dict_keys (nodes g)) \<and>
     set (dict_keys (reverse_adjacency g)) = set (dict_keys (nodes g)) \<and>
     (\<forall>(k, n) \<in> set (nodes g). n_id n = k) \<and>
     (\<forall>(k, e) \<in> set (edges g).
        e_id e = k \<and> dict_has (nodes g) (e_source e) \<and> dict_has (nodes g) (e_target e) \<and>
        k \<in> set (bucket (adjacency g) (e_source e)) \<and>
        k \<in> set (bucket (reverse_adjacency g) (e_target e))) \<and>
     (\<forall>(k, s) \<in> set (adjacency g).
        distinct s \<and>
        (\<forall>eid \<in> set s. case dict_get (edges g) eid of
                          None \<Rightarrow> False | Some e \<Rightarrow> e_source e = k)) \<and>
     (\<forall>(k, s) \<in> set (reverse_adjacency g).
        distinct s \<and>
        (\<forall>eid \<in> set s. case dict_get (edges g) eid of
                          None \<Rightarrow> False | Some e \<Rightarrow> e_target e = k))"

section \<open>Probabilistic OR (core/inevitability\_index/fii\_model.py)\<close>



section \<open>Contradiction detection (graph\_builder.py, continued)\<close>

text \<open>
  Strings built by f-strings keep each formatted number as one token: \<open>Dec\<close> is an integer
  in decimal, \<open>Num\<close> is \<open>str\<close> of a number, \<open>Val\<close> a metadata value as it is, \<open>Fmt\<close> a
  number under a format specification, \<open>Repr\<close> the \<open>repr\<close> of a list of strings.
  Plain characters are \<open>Ch\<close>, so texts without numbers compare as Python strings do.
\<close>

datatype fmt = Pct2 | Fix2 | Fix4

datatype tok = Ch char | Dec nat | Num rat | Val pyval | Fmt fmt rat | Repr "string list"

type_synonym fstr = "tok list"

definition lit :: "string \<Rightarrow> fstr" where
  "lit s = map Ch s"



text \<open>\<open>self.nodes[k]\<close> raises KeyError on a missing id.\<close>

definition node_at :: "RealityGraph \<Rightarrow> string \<Rightarrow> Node res" where
  "node_at g k = (case dict_get (nodes g) k of None \<Rightarrow> Inl (KeyError k) | Some n \<Rightarrow> Inr n)"










text \<open>
  \<open>str.lower\<close> on ASCII letters (bytes beyond ASCII are left as they are) and the substring
  test \<open>sub in s\<close>.
\<close>

definition lower_char :: "char \<Rightarrow> char" where
  "lower_char c =
    (if CHR ''A'' \<le> c \<and> c \<le> CHR ''Z'' then char_of (of_char c + (32::nat)) else c)"

definition lower :: "string \<Rightarrow> string" where
  "lower s = map lower_char s"

fun contains :: "string \<Rightarrow> string \<Rightarrow> bool" where
  "contains sub [] = (sub = [])"
| "contains sub (c # s) = (prefix sub (c # s) \<or> contains sub s)"



subsection \<open>Decision ancestry\<close>

text \<open>
  The \<open>while stack\<close> loop of \<open>has_decision_ancestry\<close>; the head of the list is the top of
  the stack. Every source pushed is an endpoint of a stored edge, which bounds the loop.
\<close>

definition edge_endpoints :: "RealityGraph \<Rightarrow> string set" where
  "edge_endpoints g = set (map e_source (dict_values (edges g)))
                      \<union> set (map e_target (dict_values (edges g)))"

function ancestry_loop :: "RealityGraph \<Rightarrow> string list \<Rightarrow> string list \<Rightarrow> bool res" where
  "ancestry_loop g visited [] = Inr False"
| "ancestry_loop g visited (current_id # stack) =
    (if current_id \<in> set visited then ancestry_loop g visited stack
     else
       case node_at g current_id of
         Inl x \<Rightarrow> Inl x
       | Inr current \<Rightarrow>
           if n_type current = DECISION then Inr True
           else (case get_incoming_edges g current_id of
                   Inl x \<Rightarrow> Inl x
                 | Inr incoming \<Rightarrow>
                     ancestry_loop g (current_id # visited)
                       (rev (map e_source incoming) @ stack)))"
  by pat_completeness auto

lemma lookup_edges_values:
  "lookup_edges d eids = Inr es \<Longrightarrow> set es \<subseteq> set (dict_values d)"
proof (induction eids arbitrary: es)
  case Nil
  then show ?case by simp
next
  case (Cons eid eids)
  then show ?case
    by (auto simp: dict_get_def dict_values_def split: option.splits sum.splits
             dest!: map_of_SomeD) (force, blast)
qed

lemma incoming_sources:
  "get_incoming_edges g k = Inr es \<Longrightarrow> set (map e_source es) \<subseteq> edge_endpoints g"
  unfolding get_incoming_edges_def edge_endpoints_def
  by (drule lookup_edges_values) auto


termination ancestry_loop
proof (relation "measures [\<lambda>(g, visited, stack). card ((edge_endpoints g \<union> set stack) - set visited),
                           \<lambda>(g, visited, stack). length stack]", goal_cases)
  case 1
  then show ?case by simp
next
  case (2 g visited current_id stack)
  have "(edge_endpoints g \<union> set stack) - set visited
        \<subseteq> (edge_endpoints g \<union> set (current_id # stack)) - set visited"
    by auto
  moreover have "finite ((edge_endpoints g \<union> set (current_id # stack)) - set visited)"
    by (simp add: edge_endpoints_def)
  ultimately have "card ((edge_endpoints g \<union> set stack) - set visited)
        \<le> card ((edge_endpoints g \<union> set (current_id # stack)) - set visited)"
    by (rule card_mono[rotated])
  then show ?case by auto
next
  case (3 g visited current_id stack current incoming)
  have sub: "set (map e_source incoming) \<subseteq> edge_endpoints g"
    using 3 incoming_sources by blast
  have fin: "finite ((edge_endpoints g \<union> set (current_id # stack)) - set visited)"
    by (simp add: edge_endpoints_def)
  have "(edge_endpoints g \<union> set (rev (map e_source incoming) @ stack)) - set (current_id # visited)
        \<subset> (edge_endpoints g \<union> set (current_id # stack)) - set visited"
    using sub 3(1) by auto
  then have "card ((edge_endpoints g \<union> set (rev (map e_source incoming) @ stack))
                   - set (current_id # visited))
        < card ((edge_endpoints g \<union> set (current_id # stack)) - set visited)"
    using fin by (rule psubset_card_mono[rotated])
  then show ?case by simp
qed

definition has_decision_ancestry :: "RealityGraph \<Rightarrow> Node \<Rightarrow> bool res" where
  "has_decision_ancestry g node = ancestry_loop g [] [n_id node]"

record GraphStats =
  total_nodes :: nat
  total_edges :: nat
  decisions :: nat
  behaviors :: nat
  assumptions :: nat
  constraints :: nat
  critical_nodes :: nat

definition get_stats :: "RealityGraph \<Rightarrow> GraphStats" where
  "get_stats g =
    \<lparr>total_nodes = length (nodes g),
     total_edges = length (edges g),
     decisions = length (get_decision_nodes g),
     behaviors = length (get_behavior_nodes g),
     assumptions = length (get_nodes_by_type g ASSUMPTION),
     constraints = length (get_nodes_by_type g CONSTRAINT),
     critical_nodes = length (get_critical_nodes g 0.7)\<rparr>"

section \<open>Axiom registry (core/axioms/axiom\_base.py)\<close>

datatype AxiomViolationType =
    AV_CONTRADICTION | AV_CAUSALITY_BREAK | AV_INEVITABILITY | AV_HUMAN_DEPENDENCY
  | AV_SILENT_ASSUMPTION | AV_UNEXPLAINED_BEHAVIOR | AV_COUNTERFACTUAL_FAILURE

fun violation_type_value :: "AxiomViolationType \<Rightarrow> string" where
  "violation_type_value AV_CONTRADICTION = ''contradiction''"
| "violation_type_value AV_CAUSALITY_BREAK = ''causality_break''"
| "violation_type_value AV_INEVITABILITY = ''inevitability''"
| "violation_type_value AV_HUMAN_DEPENDENCY = ''human_dependency''"
| "violation_type_value AV_SILENT_ASSUMPTION = ''silent_assumption''"
| "violation_type_value AV_UNEXPLAINED_BEHAVIOR = ''unexplained_behavior''"
| "violation_type_value AV_COUNTERFACTUAL_FAILURE = ''counterfactual_failure''"

text \<open>
  The \<open>evidence\<close> map of a violation is written once and read by no calculator; the record
  leaves it out.
\<close>

record AxiomViolation =
  v_axiom_name :: string
  v_violation_type :: AxiomViolationType
  v_severity :: rat
  v_causal_chain :: "string list"
  v_explanation :: fstr

definition is_fatal :: "AxiomViolation \<Rightarrow> bool" where
  "is_fatal v = (v_severity v \<ge> 0.95)"


record human_dependency =
  hd_identifier :: string
  hd_is_single_point_of_failure :: "bool option"
  hd_failure_scenario :: string













definition get_fatal_violations :: "AxiomViolation list \<Rightarrow> AxiomViolation list" where
  "get_fatal_violations violations = filter is_fatal violations"

section \<open>Failure inevitability index (core/inevitability\_index/fii\_model.py)\<close>

datatype CollapsePathType =
    CP_CONTRADICTION | CP_RESOURCE_EXHAUSTION | CP_HUMAN_DEPENDENCY | CP_CASCADING_FAILURE
  | CP_ASSUMPTION_VIOLATION | CP_DEADLOCK | CP_UNBOUNDED_GROWTH














subsection \<open>Deadlock search\<close>


fun join :: "string \<Rightarrow> string list \<Rightarrow> string" where
  "join sep [] = []"
| "join sep [x] = x"
| "join sep (x # y # ys) = x @ sep @ join sep (y # ys)"






subsection \<open>The index\<close>






section \<open>Counterfactual scenarios and results (core/counterfactuals/scenario\_generator.py)\<close>

datatype ScenarioType =
    TRAFFIC_SPIKE | NODE_FAILURE | HUMAN_UNAVAILABLE | ASSUMPTION_VIOLATED | RESOURCE_DEGRADED
  | NETWORK_PARTITION | DATA_CORRUPTION | DEPLOYMENT_FAILURE

text \<open>
  A modification is a closure made by one of four factories; it is represented by the
  factory and the value the closure captures.
\<close>

datatype modification =
    TrafficSpike rat
  | NodeFailure string
  | RemoveResource string
  | ViolateAssumption string

record CounterfactualScenario =
  s_name :: string
  s_scenario_type :: ScenarioType
  s_description :: string
  s_criticality :: rat
  s_modifications :: "modification list"
  s_metadata :: "(string, pyval) dict"

record CounterfactualResult =
  r_scenario :: CounterfactualScenario
  r_survived :: bool
  r_collapse_reason :: fstr
  r_fii_after :: rat
  r_new_violations :: "AxiomViolation list"
  r_explanation :: fstr

section \<open>Cloning and mutation on an object store (scenario\_generator.py)\<close>

text \<open>
  Whether a mutation of a clone can reach the base graph depends on which objects are
  shared. Here objects live in a store: a list of cells addressed by position. A graph
  object owns its four dictionaries and its sets of edge ids, and refers to its Node and
  Edge objects; a Node or Edge object refers to its metadata dictionary. Allocation
  appends a cell. The value of a stored graph is read back by \<open>graph_of\<close>.
\<close>

type_synonym ref = nat

record NodeObj =
  no_id :: string
  no_type :: NodeType
  no_name :: string
  no_description :: string
  no_metadata :: ref
  no_criticality :: rat

record EdgeObj =
  eo_id :: string
  eo_source :: string
  eo_target :: string
  eo_type :: EdgeType
  eo_weight :: rat
  eo_confidence :: rat
  eo_metadata :: ref

record GraphObj =
  go_nodes :: "(string, ref) dict"
  go_edges :: "(string, ref) dict"
  go_adjacency :: "(string, string list) dict"
  go_reverse_adjacency :: "(string, string list) dict"

datatype cell =
    GraphCell GraphObj
  | NodeCell NodeObj
  | EdgeCell EdgeObj
  | DictCell "(string, pyval) dict"

type_synonym heap = "cell list"

definition alloc :: "cell \<Rightarrow> heap \<Rightarrow> ref \<times> heap" where
  "alloc c h = (length h, h @ [c])"

definition graph_cell :: "heap \<Rightarrow> ref \<Rightarrow> GraphObj option" where
  "graph_cell h r =
    (if r < length h then (case h ! r of GraphCell g \<Rightarrow> Some g | _ \<Rightarrow> None) else None)"

definition node_cell :: "heap \<Rightarrow> ref \<Rightarrow> NodeObj option" where
  "node_cell h r =
    (if r < length h then (case h ! r of NodeCell n \<Rightarrow> Some n | _ \<Rightarrow> None) else None)"

definition edge_cell :: "heap \<Rightarrow> ref \<Rightarrow> EdgeObj option" where
  "edge_cell h r =
    (if r < length h then (case h ! r of EdgeCell e \<Rightarrow> Some e | _ \<Rightarrow> None) else None)"

definition dict_cell :: "heap \<Rightarrow> ref \<Rightarrow> (string, pyval) dict option" where
  "dict_cell h r =
    (if r < length h then (case h ! r of DictCell m \<Rightarrow> Some m | _ \<Rightarrow> None) else None)"

definition empty_graph_obj :: GraphObj where
  "empty_graph_obj =
    \<lparr>go_nodes = [], go_edges = [], go_adjacency = [], go_reverse_adjacency = []\<rparr>"

subsection \<open>The value of a stored graph\<close>

definition node_of :: "heap \<Rightarrow> ref \<Rightarrow> Node option" where
  "node_of h r =
    (case node_cell h r of
       None \<Rightarrow> None
     | Some n \<Rightarrow>
         (case dict_cell h (no_metadata n) of
            None \<Rightarrow> None
          | Some m \<Rightarrow>
              Some \<lparr>n_id = no_id n, n_type = no_type n, n_name = no_name n,
                    n_description = no_description n, n_metadata = m,
                    n_criticality = no_criticality n\<rparr>))"

definition edge_of :: "heap \<Rightarrow> ref \<Rightarrow> Edge option" where
  "edge_of h r =
    (case edge_cell h r of
       None \<Rightarrow> None
     | Some e \<Rightarrow>
         (case dict_cell h (eo_metadata e) of
            None \<Rightarrow> None
          | Some m \<Rightarrow>
              Some \<lparr>e_id = eo_id e, e_source = eo_source e, e_target = eo_target e,
                    e_type = eo_type e, e_weight = eo_weight e,
                    e_confidence = eo_confidence e, e_metadata = m\<rparr>))"

fun deref_all :: "(ref \<Rightarrow> 'a option) \<Rightarrow> (string, ref) dict \<Rightarrow> (string, 'a) dict option" where
  "deref_all f [] = Some []"
| "deref_all f ((k, r) # rest) =
    (case f r of
       None \<Rightarrow> None
     | Some x \<Rightarrow> (case deref_all f rest of None \<Rightarrow> None | Some xs \<Rightarrow> Some ((k, x) # xs)))"

definition graph_of :: "heap \<Rightarrow> ref \<Rightarrow> RealityGraph option" where
  "graph_of h r =
    (case graph_cell h r of
       None \<Rightarrow> None
     | Some g \<Rightarrow>
         (case deref_all (node_of h) (go_nodes g) of
            None \<Rightarrow> None
          | Some ns \<Rightarrow>
              (case deref_all (edge_of h) (go_edges g) of
                 None \<Rightarrow> None
               | Some es \<Rightarrow>
                   Some \<lparr>nodes = ns, edges = es, adjacency = go_adjacency g,
                         reverse_adjacency = go_reverse_adjacency g\<rparr>)))"

subsection \<open>\<open>_clone_graph\<close>\<close>

text \<open>
  \<open>copy.deepcopy\<close> of a Node or an Edge allocates a new metadata dictionary with the same
  entries (the values are immutable) and a new object that refers to it.
\<close>

definition deepcopy_node :: "ref \<Rightarrow> heap \<Rightarrow> ref res \<times> heap" where
  "deepcopy_node r h =
    (case node_cell h r of
       None \<Rightarrow> (Inl Dangling, h)
     | Some n \<Rightarrow>
         (case dict_cell h (no_metadata n) of
            None \<Rightarrow> (Inl Dangling, h)
          | Some m \<Rightarrow>
              let (mref, h1) = alloc (DictCell m) h;
                  (nref, h2) = alloc (NodeCell (n\<lparr>no_metadata := mref\<rparr>)) h1
              in (Inr nref, h2)))"

definition deepcopy_edge :: "ref \<Rightarrow> heap \<Rightarrow> ref res \<times> heap" where
  "deepcopy_edge r h =
    (case edge_cell h r of
       None \<Rightarrow> (Inl Dangling, h)
     | Some e \<Rightarrow>
         (case dict_cell h (eo_metadata e) of
            None \<Rightarrow> (Inl Dangling, h)
          | Some m \<Rightarrow>
              let (mref, h1) = alloc (DictCell m) h;
                  (eref, h2) = alloc (EdgeCell (e\<lparr>eo_metadata := mref\<rparr>)) h1
              in (Inr eref, h2)))"

text \<open>
  The two loops of \<open>_clone_graph\<close>. The new graph object is private to the call until it
  is returned: the loops pass its contents along, and \<open>clone_graph\<close> stores them in the
  cell allocated by \<open>type(graph)()\<close>.
\<close>

fun clone_nodes :: "(string, ref) dict \<Rightarrow> GraphObj \<Rightarrow> heap \<Rightarrow> GraphObj res \<times> heap" where
  "clone_nodes [] new_graph h = (Inr new_graph, h)"
| "clone_nodes ((node_id, node) # rest) new_graph h =
    (case deepcopy_node node h of
       (Inl x, h1) \<Rightarrow> (Inl x, h1)
     | (Inr new_node, h1) \<Rightarrow>
         (case node_cell h1 new_node of
            None \<Rightarrow> (Inl Dangling, h1)
          | Some n \<Rightarrow>
              clone_nodes rest
                (new_graph\<lparr>go_nodes := dict_set (no_id n) new_node (go_nodes new_graph),
                            go_adjacency := dict_set (no_id n) [] (go_adjacency new_graph),
                            go_reverse_adjacency :=
                              dict_set (no_id n) [] (go_reverse_adjacency new_graph)\<rparr>)
                h1))"

fun clone_edges :: "(string, ref) dict \<Rightarrow> GraphObj \<Rightarrow> heap \<Rightarrow> GraphObj res \<times> heap" where
  "clone_edges [] new_graph h = (Inr new_graph, h)"
| "clone_edges ((edge_id, edge) # rest) new_graph h =
    (case deepcopy_edge edge h of
       (Inl x, h1) \<Rightarrow> (Inl x, h1)
     | (Inr new_edge, h1) \<Rightarrow>
         (case edge_cell h1 new_edge of
            None \<Rightarrow> (Inl Dangling, h1)
          | Some e \<Rightarrow>
              let g1 = new_graph\<lparr>go_edges := dict_set (eo_id e) new_edge (go_edges new_graph)\<rparr>
              in (case dict_get (go_adjacency g1) (eo_source e) of
                    None \<Rightarrow> (Inl (KeyError (eo_source e)), h1)
                  | Some out \<Rightarrow>
                      let g2 = g1\<lparr>go_adjacency :=
                                  dict_set (eo_source e) (set_add (eo_id e) out)
                                    (go_adjacency g1)\<rparr>
                      in (case dict_get (go_reverse_adjacency g2) (eo_target e) of
                            None \<Rightarrow> (Inl (KeyError (eo_target e)), h1)
                          | Some inc \<Rightarrow>
                              clone_edges rest
                                (g2\<lparr>go_reverse_adjacency :=
                                     dict_set (eo_target e) (set_add (eo_id e) inc)
                                       (go_reverse_adjacency g2)\<rparr>)
                                h1))))"

definition clone_graph :: "ref \<Rightarrow> heap \<Rightarrow> ref res \<times> heap" where
  "clone_graph graph h =
    (case graph_cell h graph of
       None \<Rightarrow> (Inl Dangling, h)
     | Some g \<Rightarrow>
         let (new_graph, h0) = alloc (GraphCell empty_graph_obj) h in
         (case clone_nodes (go_nodes g) empty_graph_obj h0 of
            (Inl x, h1) \<Rightarrow> (Inl x, h1)
          | (Inr g1, h1) \<Rightarrow>
              (case clone_edges (go_edges g) g1 h1 of
                 (Inl x, h2) \<Rightarrow> (Inl x, h2)
               | (Inr g2, h2) \<Rightarrow> (Inr new_graph, h2[new_graph := GraphCell g2]))))"

subsection \<open>The modification closures\<close>

text \<open>
  Each closure takes the graph object to mutate. A closure that only changes the graph
  object's own dictionaries computes the new contents and stores them, also when it raises
  half-way.
\<close>

fun edges_to_remove :: "heap \<Rightarrow> string \<Rightarrow> (string, ref) dict \<Rightarrow> string list res" where
  "edges_to_remove h node_id [] = Inr []"
| "edges_to_remove h node_id ((edge_id, edge) # rest) =
    (case edge_cell h edge of
       None \<Rightarrow> Inl Dangling
     | Some e \<Rightarrow>
         rbind (edges_to_remove h node_id rest) (\<lambda>ids.
           Inr (if eo_source e = node_id \<or> eo_target e = node_id then edge_id # ids
                else ids)))"

fun remove_edges :: "heap \<Rightarrow> string list \<Rightarrow> GraphObj \<Rightarrow> unit res \<times> GraphObj" where
  "remove_edges h [] g = (Inr (), g)"
| "remove_edges h (edge_id # rest) g =
    (case dict_get (go_edges g) edge_id of
       None \<Rightarrow> (Inl (KeyError edge_id), g)
     | Some edge \<Rightarrow>
         (case edge_cell h edge of
            None \<Rightarrow> (Inl Dangling, g)
          | Some e \<Rightarrow>
              let g1 = (if dict_has (go_adjacency g) (eo_source e)
                        then g\<lparr>go_adjacency :=
                                dict_set (eo_source e)
                                  (set_discard edge_id (bucket (go_adjacency g) (eo_source e)))
                                  (go_adjacency g)\<rparr>
                        else g);
                  g2 = (if dict_has (go_reverse_adjacency g1) (eo_target e)
                        then g1\<lparr>go_reverse_adjacency :=
                                 dict_set (eo_target e)
                                   (set_discard edge_id
                                      (bucket (go_reverse_adjacency g1) (eo_target e)))
                                   (go_reverse_adjacency g1)\<rparr>
                        else g1);
                  g3 = g2\<lparr>go_edges := dict_del edge_id (go_edges g2)\<rparr>
              in remove_edges h rest g3))"

definition modify_node_failure :: "string \<Rightarrow> ref \<Rightarrow> heap \<Rightarrow> unit res \<times> heap" where
  "modify_node_failure node_id graph h =
    (case graph_cell h graph of
       None \<Rightarrow> (Inl Dangling, h)
     | Some g \<Rightarrow>
         if dict_has (go_nodes g) node_id then
           (case edges_to_remove h node_id (go_edges g) of
              Inl x \<Rightarrow> (Inl x, h)
            | Inr ids \<Rightarrow>
                (case remove_edges h ids g of
                   (Inl x, g1) \<Rightarrow> (Inl x, h[graph := GraphCell g1])
                 | (Inr u, g1) \<Rightarrow>
                     let g2 = g1\<lparr>go_nodes := dict_del node_id (go_nodes g1)\<rparr>;
                         g3 = (if dict_has (go_adjacency g2) node_id
                               then g2\<lparr>go_adjacency := dict_del node_id (go_adjacency g2)\<rparr>
                               else g2);
                         g4 = (if dict_has (go_reverse_adjacency g3) node_id
                               then g3\<lparr>go_reverse_adjacency :=
                                        dict_del node_id (go_reverse_adjacency g3)\<rparr>
                               else g3)
                     in (Inr (), h[graph := GraphCell g4])))
         else (Inr (), h))"

definition modify_remove_resource :: "string \<Rightarrow> ref \<Rightarrow> heap \<Rightarrow> unit res \<times> heap" where
  "modify_remove_resource resource_id graph h =
    (case graph_cell h graph of
       None \<Rightarrow> (Inl Dangling, h)
     | Some g \<Rightarrow>
         (case dict_get (go_nodes g) resource_id of
            None \<Rightarrow> (Inr (), h)
          | Some resource \<Rightarrow>
              (case node_cell h resource of
                 None \<Rightarrow> (Inl Dangling, h)
               | Some n \<Rightarrow>
                   (case dict_cell h (no_metadata n) of
                      None \<Rightarrow> (Inl Dangling, h)
                    | Some m \<Rightarrow>
                        (Inr (), h[no_metadata n :=
                                     DictCell (dict_set ''capacity'' (VNum 0)
                                                (dict_set ''available'' (VBool False) m))])))))"

text \<open>\<open>[self.edges[eid] for eid in edge_ids]\<close> on the store.\<close>

fun lookup_edge_objs :: "heap \<Rightarrow> (string, ref) dict \<Rightarrow> string list \<Rightarrow> EdgeObj list res" where
  "lookup_edge_objs h d [] = Inr []"
| "lookup_edge_objs h d (eid # eids) =
    (case dict_get d eid of
       None \<Rightarrow> Inl (KeyError eid)
     | Some r \<Rightarrow>
         (case edge_cell h r of
            None \<Rightarrow> Inl Dangling
          | Some e \<Rightarrow> rbind (lookup_edge_objs h d eids) (\<lambda>es. Inr (e # es))))"

text \<open>
  \<open>source_node.metadata["resource_demand"] *= multiplier\<close> with a float multiplier: a
  string operand raises TypeError.
\<close>

fun spike_sources :: "rat \<Rightarrow> GraphObj \<Rightarrow> EdgeObj list \<Rightarrow> heap \<Rightarrow> unit res \<times> heap" where
  "spike_sources multiplier g [] h = (Inr (), h)"
| "spike_sources multiplier g (edge # rest) h =
    (case dict_get (go_nodes g) (eo_source edge) of
       None \<Rightarrow> (Inl AttributeError, h)
     | Some source_node \<Rightarrow>
         (case node_cell h source_node of
            None \<Rightarrow> (Inl Dangling, h)
          | Some n \<Rightarrow>
              (case dict_cell h (no_metadata n) of
                 None \<Rightarrow> (Inl Dangling, h)
               | Some m \<Rightarrow>
                   (case dict_get m ''resource_demand'' of
                      None \<Rightarrow> spike_sources multiplier g rest h
                    | Some v \<Rightarrow>
                        (case num_of v of
                           None \<Rightarrow> (Inl TypeError, h)
                         | Some x \<Rightarrow>
                             spike_sources multiplier g rest
                               (h[no_metadata n :=
                                    DictCell (dict_set ''resource_demand''
                                                (VNum (x * multiplier)) m)]))))))"

fun spike_resources :: "rat \<Rightarrow> GraphObj \<Rightarrow> NodeObj list \<Rightarrow> heap \<Rightarrow> unit res \<times> heap" where
  "spike_resources multiplier g [] h = (Inr (), h)"
| "spike_resources multiplier g (resource # rest) h =
    (if contains ''cpu'' (lower (no_name resource))
        \<or> contains ''memory'' (lower (no_name resource)) then
       (case lookup_edge_objs h (go_edges g)
               (bucket (go_reverse_adjacency g) (no_id resource)) of
          Inl x \<Rightarrow> (Inl x, h)
        | Inr incoming \<Rightarrow>
            (case spike_sources multiplier g incoming h of
               (Inl x, h1) \<Rightarrow> (Inl x, h1)
             | (Inr u, h1) \<Rightarrow> spike_resources multiplier g rest h1))
     else spike_resources multiplier g rest h)"

fun node_objs :: "heap \<Rightarrow> ref list \<Rightarrow> NodeObj list res" where
  "node_objs h [] = Inr []"
| "node_objs h (r # rs) =
    (case node_cell h r of
       None \<Rightarrow> Inl Dangling
     | Some n \<Rightarrow> rbind (node_objs h rs) (\<lambda>ns. Inr (n # ns)))"

definition modify_traffic_spike :: "rat \<Rightarrow> ref \<Rightarrow> heap \<Rightarrow> unit res \<times> heap" where
  "modify_traffic_spike multiplier graph h =
    (case graph_cell h graph of
       None \<Rightarrow> (Inl Dangling, h)
     | Some g \<Rightarrow>
         (case node_objs h (dict_values (go_nodes g)) of
            Inl x \<Rightarrow> (Inl x, h)
          | Inr ns \<Rightarrow>
              spike_resources multiplier g (filter (\<lambda>n. no_type n = RESOURCE) ns) h))"

text \<open>
  \<open>_modify_violate_assumption\<close> creates Edge objects whose id is a fresh \<open>uuid4\<close>; the
  generator is a parameter, asked with the address of the new object. \<open>add_edge\<close> on the
  store is the method of the graph class above, with the graph object's contents passed
  along.
\<close>

definition add_edge_obj ::
  "ref \<Rightarrow> EdgeObj \<Rightarrow> GraphObj \<Rightarrow> unit res \<times> GraphObj" where
  "add_edge_obj r edge g =
    (if \<not> dict_has (go_nodes g) (eo_source edge)
       then (Inl (ValueError (''Source node '' @ eo_source edge @ '' not found'')), g)
     else if \<not> dict_has (go_nodes g) (eo_target edge)
       then (Inl (ValueError (''Target node '' @ eo_target edge @ '' not found'')), g)
     else
       let g1 = g\<lparr>go_edges := dict_set (eo_id edge) r (go_edges g)\<rparr> in
       case dict_get (go_adjacency g1) (eo_source edge) of
         None \<Rightarrow> (Inl (KeyError (eo_source edge)), g1)
       | Some out \<Rightarrow>
           let g2 = g1\<lparr>go_adjacency :=
                      dict_set (eo_source edge) (set_add (eo_id edge) out) (go_adjacency g1)\<rparr>
           in (case dict_get (go_reverse_adjacency g2) (eo_target edge) of
                 None \<Rightarrow> (Inl (KeyError (eo_target edge)), g2)
               | Some inc \<Rightarrow>
                   (Inr (), g2\<lparr>go_reverse_adjacency :=
                      dict_set (eo_target edge) (set_add (eo_id edge) inc)
                        (go_reverse_adjacency g2)\<rparr>)))"

fun contradict_targets ::
  "(ref \<Rightarrow> string) \<Rightarrow> string \<Rightarrow> string \<Rightarrow> EdgeObj list \<Rightarrow> GraphObj \<Rightarrow> heap
   \<Rightarrow> (unit res \<times> GraphObj) \<times> heap" where
  "contradict_targets uuid4 assumption_id assumption_name [] g h = ((Inr (), g), h)"
| "contradict_targets uuid4 assumption_id assumption_name (edge # rest) g h =
    (if eo_type edge = ASSUMES then
       let (mref, h1) = alloc (DictCell
              [(''reason'', VStr (''Assumption '' @ [CHR 0x27] @ assumption_name @ [CHR 0x27]
                                  @ '' violated'')),
               (''severity'', VNum 0.85)]) h;
           contra_edge = \<lparr>eo_id = uuid4 (length h1), eo_source = eo_target edge,
                           eo_target = assumption_id, eo_type = CONTRADICTS, eo_weight = 1,
                           eo_confidence = 1, eo_metadata = mref\<rparr>;
           (eref, h2) = alloc (EdgeCell contra_edge) h1
       in (case add_edge_obj eref contra_edge g of
             (Inl x, g1) \<Rightarrow> ((Inl x, g1), h2)
           | (Inr u, g1) \<Rightarrow>
               contradict_targets uuid4 assumption_id assumption_name rest g1 h2)
     else contradict_targets uuid4 assumption_id assumption_name rest g h)"

definition modify_violate_assumption ::
  "(ref \<Rightarrow> string) \<Rightarrow> string \<Rightarrow> ref \<Rightarrow> heap \<Rightarrow> unit res \<times> heap" where
  "modify_violate_assumption uuid4 assumption_id graph h =
    (case graph_cell h graph of
       None \<Rightarrow> (Inl Dangling, h)
     | Some g \<Rightarrow>
         (case dict_get (go_nodes g) assumption_id of
            None \<Rightarrow> (Inr (), h)
          | Some assumption \<Rightarrow>
              (case node_cell h assumption of
                 None \<Rightarrow> (Inl Dangling, h)
               | Some a \<Rightarrow>
                   (case lookup_edge_objs h (go_edges g)
                           (bucket (go_adjacency g) assumption_id) of
                      Inl x \<Rightarrow> (Inl x, h)
                    | Inr outgoing \<Rightarrow>
                        (case contradict_targets uuid4 assumption_id (no_name a) outgoing g h of
                           ((r, g1), h1) \<Rightarrow> (r, h1[graph := GraphCell g1]))))))"

fun apply_modification ::
  "(ref \<Rightarrow> string) \<Rightarrow> modification \<Rightarrow> ref \<Rightarrow> heap \<Rightarrow> unit res \<times> heap" where
  "apply_modification uuid4 (TrafficSpike multiplier) graph h =
     modify_traffic_spike multiplier graph h"
| "apply_modification uuid4 (NodeFailure node_id) graph h = modify_node_failure node_id graph h"
| "apply_modification uuid4 (RemoveResource resource_id) graph h =
     modify_remove_resource resource_id graph h"
| "apply_modification uuid4 (ViolateAssumption assumption_id) graph h =
     modify_violate_assumption uuid4 assumption_id graph h"

text \<open>\<open>for modification in scenario.modifications: modification(test_graph)\<close>.\<close>

fun apply_modifications ::
  "(ref \<Rightarrow> string) \<Rightarrow> modification list \<Rightarrow> ref \<Rightarrow> heap \<Rightarrow> unit res \<times> heap" where
  "apply_modifications uuid4 [] graph h = (Inr (), h)"
| "apply_modifications uuid4 (m # ms) graph h =
    (case apply_modification uuid4 m graph h of
       (Inl x, h1) \<Rightarrow> (Inl x, h1)
     | (Inr u, h1) \<Rightarrow> apply_modifications uuid4 ms graph h1)"

text \<open>
  The first lines of \<open>_test_scenario\<close>: clone the base graph, then apply the scenario's
  modifications to the clone. The result is the clone's address and the store.
\<close>

definition clone_and_modify ::
  "(ref \<Rightarrow> string) \<Rightarrow> modification list \<Rightarrow> ref \<Rightarrow> heap \<Rightarrow> ref res \<times> heap" where
  "clone_and_modify uuid4 ms base_graph h =
    (case clone_graph base_graph h of
       (Inl x, h1) \<Rightarrow> (Inl x, h1)
     | (Inr test_graph, h1) \<Rightarrow>
         (case apply_modifications uuid4 ms test_graph h1 of
            (Inl x, h2) \<Rightarrow> (Inl x, h2)
          | (Inr u, h2) \<Rightarrow> (Inr test_graph, h2)))"

section \<open>Existence judge (core/verdict/existence\_judge.py)\<close>

datatype VerdictType = PERMISSIBLE | NOT_PERMISSIBLE | UNVERIFIED

record ExistenceVerdict =
  ev_verdict :: VerdictType
  ev_certainty :: rat
  ev_primary_reason :: fstr
  ev_supporting_evidence :: "fstr list"
  ev_failure_inevitability_index :: rat
  ev_axiom_violations :: "AxiomViolation list"
  ev_counterfactual_failures :: nat
  ev_proof_chain :: "fstr list"

text \<open>
  The judge object holds the graph, the violations, the index and the counterfactual
  results; the model passes them to each method.
\<close>

definition count_cf_failures :: "CounterfactualResult list \<Rightarrow> nat" where
  "count_cf_failures cf_results = length (filter (\<lambda>r. \<not> r_survived r) cf_results)"

definition verdict_fatal_axiom ::
  "AxiomViolation list \<Rightarrow> rat \<Rightarrow> CounterfactualResult list \<Rightarrow> AxiomViolation
   \<Rightarrow> ExistenceVerdict" where
  "verdict_fatal_axiom violations fii cf_results violation =
    \<lparr>ev_verdict = NOT_PERMISSIBLE,
     ev_certainty = 1,
     ev_primary_reason = lit (''Fatal violation of '' @ v_axiom_name violation),
     ev_supporting_evidence =
       [v_explanation violation,
        lit ''Severity: '' @ [Fmt Pct2 (v_severity violation)],
        lit (''Violation type: '' @ violation_type_value (v_violation_type violation))],
     ev_failure_inevitability_index = fii,
     ev_axiom_violations = violations,
     ev_counterfactual_failures = count_cf_failures cf_results,
     ev_proof_chain =
       [lit ''AXIOM_VERIFICATION'',
        lit (v_axiom_name violation),
        lit (violation_type_value (v_violation_type violation)),
        lit ''severity='' @ [Fmt Fix2 (v_severity violation)],
        lit ''FATAL_VIOLATION'',
        lit ''SYSTEM_INVALID'']\<rparr>"

definition ge_sign :: string where
  "ge_sign = [CHR 0xE2, CHR 0x89, CHR 0xA5]"

definition verdict_inevitable_failure ::
  "AxiomViolation list \<Rightarrow> rat \<Rightarrow> CounterfactualResult list \<Rightarrow> ExistenceVerdict" where
  "verdict_inevitable_failure violations fii cf_results =
    \<lparr>ev_verdict = NOT_PERMISSIBLE,
     ev_certainty = 1,
     ev_primary_reason = lit ''Failure Inevitability Index: '' @ [Fmt Pct2 fii],
     ev_supporting_evidence =
       [lit ''All execution paths lead to system collapse'',
        lit ''FII threshold exceeded: '' @ [Fmt Pct2 fii] @ lit ('' '' @ ge_sign @ '' 90%''),
        lit ''Per Inevitability Axiom: system is logically failed''],
     ev_failure_inevitability_index = fii,
     ev_axiom_violations = violations,
     ev_counterfactual_failures = count_cf_failures cf_results,
     ev_proof_chain =
       [lit ''FII_CALCULATION'',
        lit ''fii='' @ [Fmt Fix4 fii],
        lit ''fii >= 0.90'',
        lit ''INEVITABILITY_AXIOM_TRIGGERED'',
        lit ''COLLAPSE_CERTAIN'',
        lit ''SYSTEM_INVALID'']\<rparr>"

text \<open>\<open>failures[0]\<close> raises IndexError on an empty list.\<close>

definition verdict_counterfactual_failure ::
  "AxiomViolation list \<Rightarrow> rat \<Rightarrow> CounterfactualResult list \<Rightarrow> ExistenceVerdict res" where
  "verdict_counterfactual_failure violations fii failures =
    (case failures of
       [] \<Rightarrow> Inl IndexError
     | f0 # _ \<Rightarrow>
         Inr \<lparr>ev_verdict = NOT_PERMISSIBLE,
              ev_certainty = 0.95,
              ev_primary_reason = lit ''System collapsed in '' @ [Dec (length failures)]
                                  @ lit '' critical scenarios'',
              ev_supporting_evidence =
                map (\<lambda>f. lit (''Failed scenario: '' @ s_name (r_scenario f))) (take 3 failures)
                @ [lit ''Per Counterfactual Validity Axiom: system is fundamentally fragile''],
              ev_failure_inevitability_index = fii,
              ev_axiom_violations = violations,
              ev_counterfactual_failures = length failures,
              ev_proof_chain =
                [lit ''COUNTERFACTUAL_SIMULATION'',
                 lit ''critical_failures='' @ [Dec (length failures)],
                 lit (s_name (r_scenario f0)),
                 r_collapse_reason f0,
                 lit ''COUNTERFACTUAL_VALIDITY_VIOLATED'',
                 lit ''SYSTEM_INVALID'']\<rparr>)"

definition identify_missing_data :: "RealityGraph \<Rightarrow> string list" where
  "identify_missing_data g =
    (let stats = get_stats g in
       (if decisions stats = 0 then [''engineering decisions''] else [])
     @ (if behaviors stats = 0 then [''system behaviors''] else [])
     @ (if total_edges stats = 0 then [''causal relationships''] else [])
     @ (if assumptions stats = 0 then [''system assumptions''] else []))"

definition verdict_unverified ::
  "RealityGraph \<Rightarrow> AxiomViolation list \<Rightarrow> rat \<Rightarrow> CounterfactualResult list \<Rightarrow> ExistenceVerdict"
  where
  "verdict_unverified g violations fii cf_results =
    (let missing = identify_missing_data g in
     \<lparr>ev_verdict = UNVERIFIED,
      ev_certainty = 0.5,
      ev_primary_reason = lit ''Insufficient data to render verdict'',
      ev_supporting_evidence =
        [lit (''Missing: '' @ join '', '' missing),
         lit ''Cannot verify system without complete model'',
         lit ''Recommendation: Provide additional system specifications''],
      ev_failure_inevitability_index = fii,
      ev_axiom_violations = violations,
      ev_counterfactual_failures = count_cf_failures cf_results,
      ev_proof_chain =
        [lit ''DATA_COMPLETENESS_CHECK'',
         lit ''INCOMPLETE_MODEL'',
         lit ''missing='' @ [Repr missing],
         lit ''CANNOT_VERIFY'',
         lit ''VERDICT_UNVERIFIED'']\<rparr>)"

definition verdict_permissible_fragile ::
  "AxiomViolation list \<Rightarrow> rat \<Rightarrow> CounterfactualResult list \<Rightarrow> ExistenceVerdict" where
  "verdict_permissible_fragile violations fii cf_results =
    \<lparr>ev_verdict = PERMISSIBLE,
     ev_certainty = 0.75,
     ev_primary_reason = lit ''System is logically permissible but exhibits fragility'',
     ev_supporting_evidence =
       [lit ''FII: '' @ [Fmt Pct2 fii] @ lit '' (elevated but below threshold)'',
        lit ''Axiom violations: '' @ [Dec (length violations)] @ lit '' (non-fatal)'',
        lit ''System may survive but requires careful operation''],
     ev_failure_inevitability_index = fii,
     ev_axiom_violations = violations,
     ev_counterfactual_failures = count_cf_failures cf_results,
     ev_proof_chain =
       [lit ''AXIOM_VERIFICATION'',
        lit ''no_fatal_violations'',
        lit ''FII_CALCULATION'',
        lit ''fii='' @ [Fmt Fix4 fii],
        lit ''fii < 0.90'',
        lit ''COUNTERFACTUAL_VALIDATION'',
        lit ''acceptable_failure_rate'',
        lit ''VERDICT_PERMISSIBLE_FRAGILE'']\<rparr>"

definition verdict_permissible_robust ::
  "AxiomViolation list \<Rightarrow> rat \<Rightarrow> CounterfactualResult list \<Rightarrow> ExistenceVerdict" where
  "verdict_permissible_robust violations fii cf_results =
    \<lparr>ev_verdict = PERMISSIBLE,
     ev_certainty = 1,
     ev_primary_reason = lit ''System is logically permissible and robust'',
     ev_supporting_evidence =
       [lit ''FII: '' @ [Fmt Pct2 fii] @ lit '' (low)'',
        lit ''No fatal axiom violations ('' @ [Dec (length violations)]
          @ lit '' minor issues)'',
        lit ''Survived critical counterfactual scenarios'',
        lit ''System demonstrates structural soundness''],
     ev_failure_inevitability_index = fii,
     ev_axiom_violations = violations,
     ev_counterfactual_failures = count_cf_failures cf_results,
     ev_proof_chain =
       [lit ''AXIOM_VERIFICATION'',
        lit ''no_fatal_violations'',
        lit ''FII_CALCULATION'',
        lit ''fii='' @ [Fmt Fix4 fii],
        lit ''fii < 0.70'',
        lit ''COUNTERFACTUAL_VALIDATION'',
        lit ''critical_scenarios_survived'',
        lit ''VERDICT_PERMISSIBLE_ROBUST'']\<rparr>"

fun all_have_ancestry :: "RealityGraph \<Rightarrow> Node list \<Rightarrow> bool res" where
  "all_have_ancestry g [] = Inr True"
| "all_have_ancestry g (behavior # rest) =
    rbind (has_decision_ancestry g behavior)
      (\<lambda>anc. if \<not> anc then Inr False else all_have_ancestry g rest)"

definition has_sufficient_data :: "RealityGraph \<Rightarrow> bool res" where
  "has_sufficient_data g =
    (let stats = get_stats g in
     if decisions stats = 0 then Inr False
     else if total_edges stats = 0 then Inr False
     else all_have_ancestry g (get_behavior_nodes g))"

definition render_verdict ::
  "RealityGraph \<Rightarrow> AxiomViolation list \<Rightarrow> rat \<Rightarrow> CounterfactualResult list
   \<Rightarrow> ExistenceVerdict res" where
  "render_verdict g violations fii cf_results =
    (let fatal_violations = filter is_fatal violations in
     case fatal_violations of
       v # _ \<Rightarrow> Inr (verdict_fatal_axiom violations fii cf_results v)
     | [] \<Rightarrow>
         if fii \<ge> 0.90 then Inr (verdict_inevitable_failure violations fii cf_results)
         else
           let critical_cf_failures =
                 filter (\<lambda>r. \<not> r_survived r \<and> s_criticality (r_scenario r) \<ge> 0.7) cf_results
           in
           if length critical_cf_failures \<ge> 2
           then verdict_counterfactual_failure violations fii critical_cf_failures
           else
             rbind (has_sufficient_data g) (\<lambda>sufficient.
               if \<not> sufficient then Inr (verdict_unverified g violations fii cf_results)
               else if fii \<ge> 0.70 \<or> length violations > 3
               then Inr (verdict_permissible_fragile violations fii cf_results)
               else Inr (verdict_permissible_robust violations fii cf_results)))"

section \<open>Scenario graphs and auxiliary notions for the statements\<close>

text \<open>
  \<open>Node(id=i, type=t, name=i, metadata=m)\<close> and \<open>Edge(id=i, source=s, target=t, type=ty,
  metadata=m)\<close> with the dataclass defaults for the other fields.
\<close>

definition mk_node :: "string \<Rightarrow> NodeType \<Rightarrow> (string, pyval) dict \<Rightarrow> Node" where
  "mk_node i t m =
    \<lparr>n_id = i, n_type = t, n_name = i, n_description = [], n_metadata = m,
     n_criticality = 0.5\<rparr>"

definition mk_edge ::
  "string \<Rightarrow> string \<Rightarrow> string \<Rightarrow> EdgeType \<Rightarrow> (string, pyval) dict \<Rightarrow> Edge" where
  "mk_edge i s t ty m =
    \<lparr>e_id = i, e_source = s, e_target = t, e_type = ty, e_weight = 1, e_confidence = 1,
     e_metadata = m\<rparr>"

definition is_value_error :: "'a res \<Rightarrow> bool" where
  "is_value_error r = (case r of Inl (ValueError msg) \<Rightarrow> True | _ \<Rightarrow> False)"



text \<open>Resource \<open>R1\<close> with capacity 10, decisions \<open>D1\<close>, \<open>D2\<close> with demand 8 requiring it.\<close>

definition c1_graph :: RealityGraph where
  "c1_graph =
    snd (add_edge (mk_edge ''E2'' ''D2'' ''R1'' REQUIRES [])
      (snd (add_edge (mk_edge ''E1'' ''D1'' ''R1'' REQUIRES [])
        (add_node (mk_node ''D2'' DECISION [(''resource_demand'', VNum 8)])
          (add_node (mk_node ''D1'' DECISION [(''resource_demand'', VNum 8)])
            (add_node (mk_node ''R1'' RESOURCE [(''capacity'', VNum 10)]) empty_graph))))))"

definition c2_violation :: AxiomViolation where
  "c2_violation =
    \<lparr>v_axiom_name = ''CONTRADICTION_LAW'', v_violation_type = AV_CONTRADICTION,
     v_severity = 1, v_causal_chain = [], v_explanation = lit ''Explicit contradiction''\<rparr>"

definition c2_minor :: AxiomViolation where
  "c2_minor =
    \<lparr>v_axiom_name = ''EXISTENCE_AXIOM'', v_violation_type = AV_UNEXPLAINED_BEHAVIOR,
     v_severity = 0.8, v_causal_chain = [], v_explanation = lit ''Found 1 behaviors''\<rparr>"






text \<open>A graph with the single node \<open>D1\<close> and an edge from it to a node that does not exist.\<close>

definition c9_graph :: RealityGraph where
  "c9_graph = add_node (mk_node ''D1'' DECISION []) empty_graph"

definition c9_edge :: Edge where
  "c9_edge = mk_edge ''E1'' ''D1'' ''ghost'' CAUSES []"



definition returns :: "'a res \<Rightarrow> bool" where
  "returns r = (case r of Inl e \<Rightarrow> False | Inr x \<Rightarrow> True)"





subsection \<open>Ownership of store cells\<close>

text \<open>
  The invariants of a clone under construction, relative to the size \<open>n\<close> of the store when
  the scenario started. \<open>fresh_obj n h g\<close>: every node and edge object the graph object \<open>g\<close>
  holds, and the metadata dict of each, was allocated at or after \<open>n\<close>. \<open>ext n h h'\<close>: the
  store \<open>h'\<close> extends \<open>h\<close>, its first \<open>n\<close> cells are unchanged, and a node or edge cell that
  differs from the one in \<open>h\<close> refers to a metadata dict allocated at or after \<open>n\<close>.
\<close>

definition fresh_obj :: "nat \<Rightarrow> heap \<Rightarrow> GraphObj \<Rightarrow> bool" where
  "fresh_obj n h g \<longleftrightarrow>
     (\<forall>(k, r) \<in> set (go_nodes g).
        n \<le> r \<and> (\<forall>nd. node_cell h r = Some nd \<longrightarrow> n \<le> no_metadata nd)) \<and>
     (\<forall>(k, r) \<in> set (go_edges g).
        n \<le> r \<and> (\<forall>e. edge_cell h r = Some e \<longrightarrow> n \<le> eo_metadata e))"

definition fresh_graph :: "nat \<Rightarrow> heap \<Rightarrow> ref \<Rightarrow> bool" where
  "fresh_graph n h c \<longleftrightarrow> n \<le> c \<and> (\<forall>g. graph_cell h c = Some g \<longrightarrow> fresh_obj n h g)"

definition ext :: "nat \<Rightarrow> heap \<Rightarrow> heap \<Rightarrow> bool" where
  "ext n h h' \<longleftrightarrow>
     n \<le> length h \<and> length h \<le> length h' \<and> take n h' = take n h \<and>
     (\<forall>r nd. node_cell h' r = Some nd \<longrightarrow> node_cell h r = Some nd \<or> n \<le> no_metadata nd) \<and>
     (\<forall>r e. edge_cell h' r = Some e \<longrightarrow> edge_cell h r = Some e \<or> n \<le> eo_metadata e)"

text \<open>
  Every mutable object reachable from the graph object at \<open>c\<close>: the graph object, its node
  and edge objects and their metadata dicts.
\<close>

definition graph_refs :: "heap \<Rightarrow> ref \<Rightarrow> ref set" where
  "graph_refs h c =
    insert c
      (case graph_cell h c of
         None \<Rightarrow> {}
       | Some g \<Rightarrow>
           snd ` set (go_nodes g) \<union> snd ` set (go_edges g)
           \<union> {m. \<exists>r nd. r \<in> snd ` set (go_nodes g) \<and> node_cell h r = Some nd
                       \<and> m = no_metadata nd}
           \<union> {m. \<exists>r e. r \<in> snd ` set (go_edges g) \<and> edge_cell h r = Some e
                      \<and> m = eo_metadata e})"

text \<open>
  A store holding one base graph at reference 6 (Resource \<open>R1\<close>, Decision \<open>D1\<close> and the edge
  \<open>D1 \<rightarrow> R1\<close>), the store after a node-failure scenario on it, and the store after a second
  scenario (soft resource removal, then a traffic spike) on the same base graph.
\<close>

definition c7_heap :: heap where
  "c7_heap =
    [DictCell [(''capacity'', VNum 10)],
     NodeCell \<lparr>no_id = ''R1'', no_type = RESOURCE, no_name = ''R1'', no_description = [],
               no_metadata = 0, no_criticality = 0.9\<rparr>,
     DictCell [(''resource_demand'', VNum 8)],
     NodeCell \<lparr>no_id = ''D1'', no_type = DECISION, no_name = ''D1'', no_description = [],
               no_metadata = 2, no_criticality = 0.5\<rparr>,
     DictCell [],
     EdgeCell \<lparr>eo_id = ''E1'', eo_source = ''D1'', eo_target = ''R1'', eo_type = REQUIRES,
               eo_weight = 1, eo_confidence = 1, eo_metadata = 4\<rparr>,
     GraphCell \<lparr>go_nodes = [(''R1'', 1), (''D1'', 3)], go_edges = [(''E1'', 5)],
                go_adjacency = [(''R1'', []), (''D1'', [''E1''])],
                go_reverse_adjacency = [(''R1'', [''E1'']), (''D1'', [])]\<rparr>]"

definition c7_uuid4 :: "ref \<Rightarrow> string" where
  "c7_uuid4 r = ''edge-'' @ replicate r (CHR ''i'')"

definition c7_after :: heap where
  "c7_after = snd (clone_and_modify c7_uuid4 [NodeFailure ''R1''] 6 c7_heap)"

definition c7_after2 :: heap where
  "c7_after2 = snd (clone_and_modify c7_uuid4 [RemoveResource ''R1'', TrafficSpike 3] 6 c7_after)"

section \<open>Verified properties\<close>

subsection \<open>Dictionaries\<close>

lemma update_mem:
  "(a, b) \<in> set (AList.update k v al) \<Longrightarrow> (a, b) = (k, v) \<or> (a, b) \<in> set al"
  by (induction al) (auto split: if_splits)

lemma dict_has_set [simp]: "dict_has (dict_set k v d) k' \<longleftrightarrow> k' = k \<or> dict_has d k'"
  by (auto simp: dict_has_def dict_set_def dom_update)

lemma dict_get_set [simp]:
  "dict_get (dict_set k v d) k' = (if k' = k then Some v else dict_get d k')"
  by (simp add: dict_get_def dict_set_def update_conv')

lemma dict_keys_set: "set (dict_keys (dict_set k v d)) = insert k (set (dict_keys d))"
  by (auto simp: dict_keys_def dict_set_def dom_update)

lemma distinct_keys_set:
  "distinct (dict_keys d) \<Longrightarrow> distinct (dict_keys (dict_set k v d))"
  by (simp add: dict_keys_def dict_set_def distinct_update)

lemma dict_has_keys: "dict_has d k \<longleftrightarrow> k \<in> set (dict_keys d)"
  by (simp add: dict_has_def dict_keys_def)

lemma dict_has_get: "dict_has d k \<longleftrightarrow> dict_get d k \<noteq> None"
  by (simp add: dict_has_def dict_get_def map_of_eq_None_iff)

lemma dict_set_mem:
  "(a, b) \<in> set (dict_set k v d) \<Longrightarrow> (a, b) = (k, v) \<or> (a, b) \<in> set d"
  unfolding dict_set_def by (rule update_mem)

lemma bucket_set [simp]: "bucket (dict_set k v d) k' = (if k' = k then v else bucket d k')"
  by (simp add: bucket_def)

subsection \<open>Adding nodes and edges\<close>

text \<open>
  Claim C9. For every graph and every edge whose source id or target id is not a node of
  the graph, \<open>add_edge\<close> raises ValueError (the reference-validity error) and the graph it
  leaves behind is the graph it was given: edge collection and both adjacency indices are
  those before the call.
\<close>

theorem add_edge_missing_endpoint:
  assumes "\<not> dict_has (nodes g) (e_source edge) \<or> \<not> dict_has (nodes g) (e_target edge)"
  shows "is_value_error (fst (add_edge edge g)) \<and> snd (add_edge edge g) = g
         \<and> edges (snd (add_edge edge g)) = edges g
         \<and> adjacency (snd (add_edge edge g)) = adjacency g
         \<and> reverse_adjacency (snd (add_edge edge g)) = reverse_adjacency g"
  using assms by (auto simp: add_edge_def is_value_error_def)

theorem add_edge_missing_endpoint_witness:
  "dict_has (nodes c9_graph) (e_source c9_edge)
   \<and> \<not> dict_has (nodes c9_graph) (e_target c9_edge)
   \<and> is_value_error (fst (add_edge c9_edge c9_graph))
   \<and> snd (add_edge c9_edge c9_graph) = c9_graph"
proof -
  have s: "dict_has (nodes c9_graph) (e_source c9_edge)"
    by code_simp
  have t: "\<not> dict_has (nodes c9_graph) (e_target c9_edge)"
    by code_simp
  then have h: "\<not> dict_has (nodes c9_graph) (e_source c9_edge)
                \<or> \<not> dict_has (nodes c9_graph) (e_target c9_edge)"
    by simp
  show ?thesis
    using s t add_edge_missing_endpoint[OF h] by simp
qed

lemma add_node_present:
  assumes "dict_has (adjacency g) (n_id node)" "dict_has (reverse_adjacency g) (n_id node)"
  shows "add_node node g = g\<lparr>nodes := dict_set (n_id node) node (nodes g)\<rparr>"
  using assms by (simp add: add_node_def Let_def)

lemma add_node_absent:
  assumes "\<not> dict_has (adjacency g) (n_id node)"
    "\<not> dict_has (reverse_adjacency g) (n_id node)"
  shows "add_node node g =
           g\<lparr>nodes := dict_set (n_id node) node (nodes g),
             adjacency := dict_set (n_id node) [] (adjacency g),
             reverse_adjacency := dict_set (n_id node) [] (reverse_adjacency g)\<rparr>"
  using assms by (simp add: add_node_def Let_def)

lemma wf_keys:
  assumes "wf_graph g"
  shows "dict_has (adjacency g) k \<longleftrightarrow> dict_has (nodes g) k"
    and "dict_has (reverse_adjacency g) k \<longleftrightarrow> dict_has (nodes g) k"
  using assms by (auto simp: wf_graph_def dict_has_keys)

lemma add_node_wf:
  assumes wf: "wf_graph g"
  shows "wf_graph (add_node node g)"
proof (cases "dict_has (nodes g) (n_id node)")
  case True
  then have eq: "add_node node g = g\<lparr>nodes := dict_set (n_id node) node (nodes g)\<rparr>"
    using wf_keys[OF wf] by (simp add: add_node_present)
  have keys: "set (dict_keys (dict_set (n_id node) node (nodes g))) = set (dict_keys (nodes g))"
    using True by (auto simp: dict_keys_set dict_has_keys)
  show ?thesis
    unfolding eq using wf keys
    by (auto simp: wf_graph_def distinct_keys_set dest!: dict_set_mem)
next
  case False
  then have eq: "add_node node g =
      g\<lparr>nodes := dict_set (n_id node) node (nodes g),
        adjacency := dict_set (n_id node) [] (adjacency g),
        reverse_adjacency := dict_set (n_id node) [] (reverse_adjacency g)\<rparr>"
    using wf_keys[OF wf] by (simp add: add_node_absent)
  have nb: "bucket (adjacency g) (n_id node) = []"
    "bucket (reverse_adjacency g) (n_id node) = []"
  proof -
    have "\<not> dict_has (adjacency g) (n_id node)"
      "\<not> dict_has (reverse_adjacency g) (n_id node)"
      using False wf_keys[OF wf] by simp_all
    then have "dict_get (adjacency g) (n_id node) = None"
      "dict_get (reverse_adjacency g) (n_id node) = None"
      by (simp_all add: dict_has_get)
    then show "bucket (adjacency g) (n_id node) = []"
      "bucket (reverse_adjacency g) (n_id node) = []"
      by (simp_all add: bucket_def)
  qed
  show ?thesis
    unfolding eq using wf nb
    by (auto simp: wf_graph_def distinct_keys_set dict_keys_set dest!: dict_set_mem)
qed

text \<open>
  Claim C10. \<open>add_node\<close> is a total function (it has no error result). On a graph that
  satisfies the structural invariant it stores the node under its id; if the id was absent,
  the node gets a forward and a reverse bucket, both empty; if the id was present, the edge
  collection and both adjacency indices are unchanged (so every edge incident to the id
  stays incident); and the invariant holds again after the call.
\<close>

theorem add_node_lockstep:
  assumes "wf_graph g"
  shows "dict_get (nodes (add_node node g)) (n_id node) = Some node
       \<and> (\<not> dict_has (nodes g) (n_id node) \<longrightarrow>
            dict_has (adjacency (add_node node g)) (n_id node) \<and>
            dict_has (reverse_adjacency (add_node node g)) (n_id node) \<and>
            bucket (adjacency (add_node node g)) (n_id node) = [] \<and>
            bucket (reverse_adjacency (add_node node g)) (n_id node) = [])
       \<and> (dict_has (nodes g) (n_id node) \<longrightarrow>
            edges (add_node node g) = edges g \<and>
            adjacency (add_node node g) = adjacency g \<and>
            reverse_adjacency (add_node node g) = reverse_adjacency g)
       \<and> wf_graph (add_node node g)"
proof -
  have 1: "dict_get (nodes (add_node node g)) (n_id node) = Some node"
    by (simp add: add_node_def Let_def)
  have 2: "wf_graph (add_node node g)" using assms by (rule add_node_wf)
  have 3: "dict_has (adjacency (add_node node g)) (n_id node) \<and>
           dict_has (reverse_adjacency (add_node node g)) (n_id node) \<and>
           bucket (adjacency (add_node node g)) (n_id node) = [] \<and>
           bucket (reverse_adjacency (add_node node g)) (n_id node) = []"
    if "\<not> dict_has (nodes g) (n_id node)"
    using that wf_keys[OF assms] by (simp add: add_node_absent)
  have 4: "edges (add_node node g) = edges g \<and>
           adjacency (add_node node g) = adjacency g \<and>
           reverse_adjacency (add_node node g) = reverse_adjacency g"
    if "dict_has (nodes g) (n_id node)"
    using that wf_keys[OF assms] by (simp add: add_node_present)
  show ?thesis using 1 2 3 4 by blast
qed

theorem add_node_lockstep_witness:
  "wf_graph c1_graph
   \<and> dict_has (nodes c1_graph) (n_id (mk_node ''D1'' BEHAVIOR []))
   \<and> \<not> dict_has (nodes c1_graph) (n_id (mk_node ''D3'' DECISION []))
   \<and> dict_get (nodes (add_node (mk_node ''D1'' BEHAVIOR []) c1_graph)) ''D1''
       = Some (mk_node ''D1'' BEHAVIOR [])
   \<and> edges (add_node (mk_node ''D1'' BEHAVIOR []) c1_graph) = edges c1_graph
   \<and> adjacency (add_node (mk_node ''D1'' BEHAVIOR []) c1_graph) = adjacency c1_graph
   \<and> reverse_adjacency (add_node (mk_node ''D1'' BEHAVIOR []) c1_graph)
       = reverse_adjacency c1_graph
   \<and> bucket (adjacency (add_node (mk_node ''D3'' DECISION []) c1_graph)) ''D3'' = []
   \<and> bucket (reverse_adjacency (add_node (mk_node ''D3'' DECISION []) c1_graph)) ''D3'' = []
   \<and> wf_graph (add_node (mk_node ''D1'' BEHAVIOR []) c1_graph)
   \<and> wf_graph (add_node (mk_node ''D3'' DECISION []) c1_graph)"
proof -
  have h: "wf_graph c1_graph" by code_simp
  have p: "dict_has (nodes c1_graph) (n_id (mk_node ''D1'' BEHAVIOR []))" by code_simp
  have a: "\<not> dict_has (nodes c1_graph) (n_id (mk_node ''D3'' DECISION []))" by code_simp
  have i: "n_id (mk_node ''D1'' BEHAVIOR []) = ''D1''" "n_id (mk_node ''D3'' DECISION []) = ''D3''"
    by (simp_all add: mk_node_def)
  show ?thesis
    using h p a add_node_lockstep[OF h, of "mk_node ''D1'' BEHAVIOR []"]
      add_node_lockstep[OF h, of "mk_node ''D3'' DECISION []"]
    unfolding i by blast
qed

subsection \<open>Probabilistic OR\<close>




subsection \<open>The judge's first branch\<close>

lemma find_filter: "find P xs = Some v \<Longrightarrow> \<exists>rest. filter P xs = v # rest"
  by (induction xs) (auto split: if_splits)

text \<open>
  Claim C2, as the code has it. Whenever the violations contain a fatal one (severity at
  least 0.95), \<open>render_verdict\<close> returns the verdict built from the first fatal violation,
  whatever the index (also at 0.90 and above), the graph and the counterfactual results:
  NotPermissible with certainty 1. Its primary reason is the text "Fatal violation of"
  followed by the axiom name; the violation's explanation is the first item of the
  supporting evidence.
\<close>

theorem render_verdict_fatal_first:
  assumes "find is_fatal violations = Some v"
  shows "render_verdict g violations fii cf_results
           = Inr (verdict_fatal_axiom violations fii cf_results v)
       \<and> ev_verdict (verdict_fatal_axiom violations fii cf_results v) = NOT_PERMISSIBLE
       \<and> ev_certainty (verdict_fatal_axiom violations fii cf_results v) = 1
       \<and> ev_primary_reason (verdict_fatal_axiom violations fii cf_results v)
           = lit (''Fatal violation of '' @ v_axiom_name v)
       \<and> hd (ev_supporting_evidence (verdict_fatal_axiom violations fii cf_results v))
           = v_explanation v"
proof -
  obtain rest where "filter is_fatal violations = v # rest"
    using find_filter[OF assms] by blast
  then show ?thesis
    by (simp add: render_verdict_def verdict_fatal_axiom_def)
qed

theorem render_verdict_fatal_first_witness:
  "find is_fatal [c2_minor, c2_violation] = Some c2_violation
   \<and> (0.95::rat) \<ge> 0.90
   \<and> render_verdict empty_graph [c2_minor, c2_violation] 0.95 []
       = Inr (verdict_fatal_axiom [c2_minor, c2_violation] 0.95 [] c2_violation)
   \<and> ev_primary_reason (verdict_fatal_axiom [c2_minor, c2_violation] 0.95 [] c2_violation)
       = lit ''Fatal violation of CONTRADICTION_LAW''"
proof -
  have h: "find is_fatal [c2_minor, c2_violation] = Some c2_violation"
    by (simp add: is_fatal_def c2_minor_def c2_violation_def)
  show ?thesis
    using h render_verdict_fatal_first[OF h, of empty_graph "0.95" "[]"]
    by (simp add: c2_violation_def)
qed

text \<open>
  Claim C2 as stated fails: for the single fatal violation \<open>c2_violation\<close> the primary
  reason of the verdict is not the violation's explanation.
\<close>

theorem render_verdict_reason_counterexample:
  "is_fatal c2_violation
   \<and> map_sum id ev_primary_reason (render_verdict empty_graph [c2_violation] 0.95 [])
       \<noteq> Inr (v_explanation c2_violation)"
  by (simp add: render_verdict_def verdict_fatal_axiom_def is_fatal_def c2_violation_def
        lit_def)

subsection \<open>The Contradicts-edge scenario\<close>




subsection \<open>Resource oversubscription and resource exhaustion\<close>











subsection \<open>The oversubscribed-resource scenario\<close>



subsection \<open>The calculators return on well-formed graphs\<close>

lemma returns_Inr [simp]: "returns (Inr x)" by (simp add: returns_def)
lemma returns_Inl [simp]: "\<not> returns (Inl x)" by (simp add: returns_def)

lemma rbind_Inr [simp]: "rbind (Inr x) f = f x" by (simp add: rbind_def)
lemma rbind_Inl [simp]: "rbind (Inl e) f = Inl e" by (simp add: rbind_def)









































lemma set_set_add [simp]: "set (set_add x s) = insert x (set s)"
  by (auto simp: set_add_def)

















subsection \<open>Counterfactual clones\<close>

lemma ext_refl: "n \<le> length h \<Longrightarrow> ext n h h"
  by (simp add: ext_def)

lemma ext_len: "ext n h h' \<Longrightarrow> n \<le> length h'"
  by (simp add: ext_def)

lemma ext_trans:
  assumes "ext n h h1" "ext n h1 h2"
  shows "ext n h h2"
proof -
  have a: "n \<le> length h" "length h \<le> length h1" "take n h1 = take n h"
    and an: "\<And>r nd. node_cell h1 r = Some nd \<Longrightarrow> node_cell h r = Some nd \<or> n \<le> no_metadata nd"
    and ae: "\<And>r e. edge_cell h1 r = Some e \<Longrightarrow> edge_cell h r = Some e \<or> n \<le> eo_metadata e"
    using assms(1) by (auto simp: ext_def)
  have b: "length h1 \<le> length h2" "take n h2 = take n h1"
    and bn: "\<And>r nd. node_cell h2 r = Some nd \<Longrightarrow> node_cell h1 r = Some nd \<or> n \<le> no_metadata nd"
    and be: "\<And>r e. edge_cell h2 r = Some e \<Longrightarrow> edge_cell h1 r = Some e \<or> n \<le> eo_metadata e"
    using assms(2) by (auto simp: ext_def)
  have "node_cell h r = Some nd \<or> n \<le> no_metadata nd" if "node_cell h2 r = Some nd" for r nd
    using bn[OF that] an by auto
  moreover have "edge_cell h r = Some e \<or> n \<le> eo_metadata e" if "edge_cell h2 r = Some e" for r e
    using be[OF that] ae by auto
  ultimately show ?thesis using a b by (simp add: ext_def)
qed

lemma cell_append:
  "node_cell (h @ [c]) x = Some nd \<Longrightarrow> node_cell h x = Some nd \<or> c = NodeCell nd"
  "edge_cell (h @ [c]) x = Some e \<Longrightarrow> edge_cell h x = Some e \<or> c = EdgeCell e"
  by (cases c; auto simp: node_cell_def edge_cell_def nth_append split: if_splits)+

lemma ext_alloc:
  assumes "n \<le> length h" "\<And>nd. c = NodeCell nd \<Longrightarrow> n \<le> no_metadata nd"
    "\<And>e. c = EdgeCell e \<Longrightarrow> n \<le> eo_metadata e"
  shows "ext n h (h @ [c])"
proof -
  have "node_cell h x = Some nd \<or> n \<le> no_metadata nd" if "node_cell (h @ [c]) x = Some nd"
    for x nd using cell_append(1)[OF that] assms(2) by auto
  moreover have "edge_cell h x = Some e \<or> n \<le> eo_metadata e"
    if "edge_cell (h @ [c]) x = Some e" for x e
    using cell_append(2)[OF that] assms(3) by auto
  ultimately show ?thesis using assms(1) by (simp add: ext_def)
qed

lemma cell_write:
  assumes "\<And>nd. c \<noteq> NodeCell nd" "\<And>e. c \<noteq> EdgeCell e"
  shows "node_cell (h[r := c]) x = Some nd \<Longrightarrow> node_cell h x = Some nd"
    and "edge_cell (h[r := c]) x = Some e \<Longrightarrow> edge_cell h x = Some e"
proof -
  have eq: "x \<noteq> r \<Longrightarrow> h[r := c] ! x = h ! x" by simp
  have at: "x = r \<Longrightarrow> x < length h \<Longrightarrow> h[r := c] ! x = c" by simp
  show "node_cell (h[r := c]) x = Some nd \<Longrightarrow> node_cell h x = Some nd"
    using assms(1) eq at by (cases "x = r"; cases c) (auto simp: node_cell_def split: if_splits)
  show "edge_cell (h[r := c]) x = Some e \<Longrightarrow> edge_cell h x = Some e"
    using assms(2) eq at by (cases "x = r"; cases c) (auto simp: edge_cell_def split: if_splits)
qed

lemma ext_write:
  assumes "n \<le> length h" "n \<le> r" "\<And>nd. c \<noteq> NodeCell nd" "\<And>e. c \<noteq> EdgeCell e"
  shows "ext n h (h[r := c])"
proof -
  have "take n (h[r := c]) = take n h" using assms(2) by simp
  moreover have "node_cell h x = Some nd \<or> n \<le> no_metadata nd"
    if "node_cell (h[r := c]) x = Some nd" for x nd
    using cell_write(1)[OF assms(3,4) that] by simp
  moreover have "edge_cell h x = Some e \<or> n \<le> eo_metadata e"
    if "edge_cell (h[r := c]) x = Some e" for x e
    using cell_write(2)[OF assms(3,4) that] by simp
  ultimately show ?thesis using assms(1) by (simp add: ext_def)
qed

lemma ext_write_dict:
  assumes "n \<le> length h" "n \<le> r"
  shows "ext n h (h[r := DictCell m])"
  by (rule ext_write[OF assms]) simp_all

lemma ext_write_graph:
  assumes "n \<le> length h" "n \<le> r"
  shows "ext n h (h[r := GraphCell g])"
  by (rule ext_write[OF assms]) simp_all

lemma fresh_obj_ext:
  assumes "fresh_obj n h g" "ext n h h'"
  shows "fresh_obj n h' g"
proof -
  have "n \<le> r \<and> (\<forall>nd. node_cell h' r = Some nd \<longrightarrow> n \<le> no_metadata nd)"
    if kr: "(k, r) \<in> set (go_nodes g)" for k r
  proof -
    have old: "n \<le> r" "\<And>nd. node_cell h r = Some nd \<Longrightarrow> n \<le> no_metadata nd"
      using assms(1) kr by (auto simp: fresh_obj_def)
    have "n \<le> no_metadata nd" if "node_cell h' r = Some nd" for nd
    proof -
      from assms(2) that have "node_cell h r = Some nd \<or> n \<le> no_metadata nd"
        by (simp add: ext_def)
      then show ?thesis using old(2) by auto
    qed
    then show ?thesis using old(1) by simp
  qed
  moreover have "n \<le> r \<and> (\<forall>e. edge_cell h' r = Some e \<longrightarrow> n \<le> eo_metadata e)"
    if kr: "(k, r) \<in> set (go_edges g)" for k r
  proof -
    have old: "n \<le> r" "\<And>e. edge_cell h r = Some e \<Longrightarrow> n \<le> eo_metadata e"
      using assms(1) kr by (auto simp: fresh_obj_def)
    have "n \<le> eo_metadata e" if "edge_cell h' r = Some e" for e
    proof -
      from assms(2) that have "edge_cell h r = Some e \<or> n \<le> eo_metadata e"
        by (simp add: ext_def)
      then show ?thesis using old(2) by auto
    qed
    then show ?thesis using old(1) by simp
  qed
  ultimately show ?thesis unfolding fresh_obj_def by blast
qed

lemma fresh_obj_subset:
  assumes "fresh_obj n h g" "set (go_nodes g') \<subseteq> set (go_nodes g)"
    "set (go_edges g') \<subseteq> set (go_edges g)"
  shows "fresh_obj n h g'"
  using assms unfolding fresh_obj_def by blast

lemma graph_cell_write_dict:
  "dict_cell h r = Some m \<Longrightarrow> graph_cell (h[r := DictCell m']) x = graph_cell h x"
proof (cases "x = r")
  case True
  assume "dict_cell h r = Some m"
  then have "r < length h" "\<exists>m. h ! r = DictCell m"
    by (auto simp: dict_cell_def split: if_splits cell.splits)
  then show ?thesis using True by (auto simp: graph_cell_def)
next
  case False
  then show ?thesis by (simp add: graph_cell_def)
qed

lemma graph_cell_length: "graph_cell h c = Some g \<Longrightarrow> c < length h"
  by (auto simp: graph_cell_def split: if_splits)

lemma graph_cell_at: "c < length h \<Longrightarrow> graph_cell (h[c := GraphCell g]) c = Some g"
  by (simp add: graph_cell_def)

lemma fresh_graph_same:
  assumes "fresh_graph n h c" "ext n h h'" "graph_cell h' c = graph_cell h c"
  shows "fresh_graph n h' c"
  using assms fresh_obj_ext unfolding fresh_graph_def by auto

lemma fresh_graph_write:
  assumes "n \<le> c" "n \<le> length h" "c < length h" "fresh_obj n h g"
  shows "fresh_graph n (h[c := GraphCell g]) c"
proof -
  have "fresh_obj n (h[c := GraphCell g]) g"
    by (rule fresh_obj_ext[OF assms(4) ext_write_graph[OF assms(2,1)]])
  then show ?thesis using assms(1,3) by (simp add: fresh_graph_def graph_cell_at)
qed

lemma dict_get_in: "dict_get d k = Some v \<Longrightarrow> (k, v) \<in> set d"
  by (simp add: dict_get_def map_of_SomeD)

lemma fresh_obj_meta:
  assumes "fresh_obj n h g" "dict_get (go_nodes g) k = Some r" "node_cell h r = Some nd"
  shows "n \<le> no_metadata nd"
  using assms(1,3) dict_get_in[OF assms(2)] unfolding fresh_obj_def by blast

lemma dict_del_subset: "set (dict_del k d) \<subseteq> set d"
  by (auto simp: dict_del_def AList.delete_eq)

lemma remove_resource_step:
  assumes fg: "fresh_graph n h c" and len: "n \<le> length h"
    and op: "modify_remove_resource k c h = (r, h')"
  shows "ext n h h' \<and> fresh_graph n h' c"
proof (cases "graph_cell h c")
  case None
  then show ?thesis using op len fg by (simp add: modify_remove_resource_def ext_refl)
next
  case (Some g)
  then have fo: "fresh_obj n h g" using fg by (simp add: fresh_graph_def)
  show ?thesis
  proof (cases "dict_get (go_nodes g) k")
    case None
    then show ?thesis using op len Some fg
      by (simp add: modify_remove_resource_def ext_refl)
  next
    case res: (Some res)
    show ?thesis
    proof (cases "node_cell h res")
      case None
      then show ?thesis using op len Some res fg
        by (simp add: modify_remove_resource_def ext_refl)
    next
      case nd: (Some nd)
      have ge: "n \<le> no_metadata nd" by (rule fresh_obj_meta[OF fo res nd])
      show ?thesis
      proof (cases "dict_cell h (no_metadata nd)")
        case None
        then show ?thesis using op len Some res nd fg
          by (simp add: modify_remove_resource_def ext_refl)
      next
        case m: (Some m)
        have h': "h' = h[no_metadata nd := DictCell (dict_set ''capacity'' (VNum 0)
                                                (dict_set ''available'' (VBool False) m))]"
          using op Some res nd m by (simp add: modify_remove_resource_def)
        have e: "ext n h h'" unfolding h' by (rule ext_write_dict[OF len ge])
        have "graph_cell h' c = graph_cell h c" unfolding h' by (rule graph_cell_write_dict[OF m])
        from fresh_graph_same[OF fg e this] e show ?thesis by simp
      qed
    qed
  qed
qed

lemma remove_edges_sub:
  "remove_edges h ids g = (r, g') \<Longrightarrow>
   go_nodes g' = go_nodes g \<and> set (go_edges g') \<subseteq> set (go_edges g)"
proof (induction ids arbitrary: g)
  case Nil
  then show ?case by simp
next
  case (Cons edge_id rest)
  show ?case
  proof (cases "dict_get (go_edges g) edge_id")
    case None
    then show ?thesis using Cons.prems by simp
  next
    case (Some eref)
    show ?thesis
    proof (cases "edge_cell h eref")
      case None
      then show ?thesis using Cons.prems Some by simp
    next
      case e: (Some e)
      from Cons.prems Some e obtain g3 where g3: "remove_edges h rest g3 = (r, g')"
        "go_nodes g3 = go_nodes g" "go_edges g3 = dict_del edge_id (go_edges g)"
        by (auto simp: Let_def split: if_splits)
      from Cons.IH[OF g3(1)] g3(2,3) dict_del_subset[of edge_id "go_edges g"]
      show ?thesis by auto
    qed
  qed
qed

lemma node_failure_step:
  assumes fg: "fresh_graph n h c" and len: "n \<le> length h"
    and op: "modify_node_failure k c h = (r, h')"
  shows "ext n h h' \<and> fresh_graph n h' c"
proof (cases "graph_cell h c")
  case None
  then show ?thesis using op len fg by (simp add: modify_node_failure_def ext_refl)
next
  case (Some g)
  have nc: "n \<le> c" using fg by (simp add: fresh_graph_def)
  have cl: "c < length h" by (rule graph_cell_length[OF Some])
  have fo: "fresh_obj n h g" using fg Some by (simp add: fresh_graph_def)
  have wr: "ext n h (h[c := GraphCell g']) \<and> fresh_graph n (h[c := GraphCell g']) c"
    if "set (go_nodes g') \<subseteq> set (go_nodes g)" "set (go_edges g') \<subseteq> set (go_edges g)" for g'
    using ext_write_graph[OF len nc] fresh_graph_write[OF nc len cl fresh_obj_subset[OF fo that]]
    by simp
  show ?thesis
  proof (cases "dict_has (go_nodes g) k")
    case False
    then show ?thesis using op len Some fg
      by (simp add: modify_node_failure_def ext_refl)
  next
    case True
    show ?thesis
    proof (cases "edges_to_remove h k (go_edges g)")
      case (Inl x)
      then show ?thesis using op len Some True fg
        by (simp add: modify_node_failure_def ext_refl)
    next
      case (Inr ids)
      obtain rr g1 where re: "remove_edges h ids g = (rr, g1)" by (cases "remove_edges h ids g")
      have n1: "go_nodes g1 = go_nodes g" "set (go_edges g1) \<subseteq> set (go_edges g)"
        using remove_edges_sub[OF re] by simp_all
      show ?thesis
      proof (cases rr)
        case (Inl x)
        then have "h' = h[c := GraphCell g1]"
          using op Some True Inr re by (simp add: modify_node_failure_def)
        then show ?thesis using wr[of g1] n1 by simp
      next
        case u: (Inr u)
        then obtain g4 where "h' = h[c := GraphCell g4]"
          "go_nodes g4 = dict_del k (go_nodes g1)" "go_edges g4 = go_edges g1"
          using op Some True Inr re by (auto simp: modify_node_failure_def Let_def)
        then show ?thesis using wr[of g4] n1 dict_del_subset[of k "go_nodes g"] by simp
      qed
    qed
  qed
qed

lemma spike_sources_step:
  "fresh_obj n h g \<Longrightarrow> n \<le> length h \<Longrightarrow> spike_sources mult g es h = (r, h') \<Longrightarrow>
   ext n h h' \<and> (\<forall>x. graph_cell h' x = graph_cell h x)"
proof (induction es arbitrary: h)
  case Nil
  then show ?case by (simp add: ext_refl)
next
  case (Cons edge rest)
  note fo = Cons.prems(1) and len = Cons.prems(2) and op = Cons.prems(3)
  show ?case
  proof (cases "dict_get (go_nodes g) (eo_source edge)")
    case None
    then show ?thesis using op len by (simp add: ext_refl)
  next
    case src: (Some src)
    show ?thesis
    proof (cases "node_cell h src")
      case None
      then show ?thesis using op len src by (simp add: ext_refl)
    next
      case nd: (Some nd)
      have ge: "n \<le> no_metadata nd" by (rule fresh_obj_meta[OF fo src nd])
      show ?thesis
      proof (cases "dict_cell h (no_metadata nd)")
        case None
        then show ?thesis using op len src nd by (simp add: ext_refl)
      next
        case m: (Some m)
        show ?thesis
        proof (cases "dict_get m ''resource_demand''")
          case None
          then have "spike_sources mult g rest h = (r, h')" using op src nd m by simp
          from Cons.IH[OF fo len this] show ?thesis .
        next
          case v: (Some v)
          show ?thesis
          proof (cases "num_of v")
            case None
            then show ?thesis using op len src nd m v by (simp add: ext_refl)
          next
            case x: (Some x)
            let ?h1 = "h[no_metadata nd :=
                         DictCell (dict_set ''resource_demand'' (VNum (x * mult)) m)]"
            have rec: "spike_sources mult g rest ?h1 = (r, h')"
              using op src nd m v x by simp
            have e1: "ext n h ?h1" by (rule ext_write_dict[OF len ge])
            have g1: "\<forall>y. graph_cell ?h1 y = graph_cell h y"
              using graph_cell_write_dict[OF m] by simp
            have "ext n ?h1 h' \<and> (\<forall>y. graph_cell h' y = graph_cell ?h1 y)"
              by (rule Cons.IH[OF fresh_obj_ext[OF fo e1] ext_len[OF e1] rec])
            then show ?thesis using e1 g1 ext_trans by auto
          qed
        qed
      qed
    qed
  qed
qed

lemma spike_resources_step:
  "fresh_obj n h g \<Longrightarrow> n \<le> length h \<Longrightarrow> spike_resources mult g rs h = (r, h') \<Longrightarrow>
   ext n h h' \<and> (\<forall>x. graph_cell h' x = graph_cell h x)"
proof (induction rs arbitrary: h)
  case Nil
  then show ?case by (simp add: ext_refl)
next
  case (Cons resource rest)
  note fo = Cons.prems(1) and len = Cons.prems(2) and op = Cons.prems(3)
  show ?case
  proof (cases "contains ''cpu'' (lower (no_name resource))
                \<or> contains ''memory'' (lower (no_name resource))")
    case False
    then have "spike_resources mult g rest h = (r, h')" using op by simp
    from Cons.IH[OF fo len this] show ?thesis .
  next
    case True
    show ?thesis
    proof (cases "lookup_edge_objs h (go_edges g)
                    (bucket (go_reverse_adjacency g) (no_id resource))")
      case (Inl x)
      then show ?thesis using op len True by (auto simp: ext_refl)
    next
      case (Inr incoming)
      obtain r1 h1 where ss: "spike_sources mult g incoming h = (r1, h1)"
        by (cases "spike_sources mult g incoming h")
      have s1: "ext n h h1 \<and> (\<forall>x. graph_cell h1 x = graph_cell h x)"
        by (rule spike_sources_step[OF fo len ss])
      show ?thesis
      proof (cases r1)
        case (Inl x)
        then have "h' = h1" using op True Inr ss by auto
        then show ?thesis using s1 by simp
      next
        case u: (Inr u)
        then have rec: "spike_resources mult g rest h1 = (r, h')"
          using op True Inr ss by auto
        have "ext n h1 h' \<and> (\<forall>x. graph_cell h' x = graph_cell h1 x)"
          using Cons.IH[OF fresh_obj_ext[OF fo] ext_len rec] s1 by blast
        then show ?thesis using s1 ext_trans by auto
      qed
    qed
  qed
qed

lemma traffic_spike_step:
  assumes fg: "fresh_graph n h c" and len: "n \<le> length h"
    and op: "modify_traffic_spike mult c h = (r, h')"
  shows "ext n h h' \<and> fresh_graph n h' c"
proof (cases "graph_cell h c")
  case None
  then show ?thesis using op len fg by (simp add: modify_traffic_spike_def ext_refl)
next
  case (Some g)
  then have fo: "fresh_obj n h g" using fg by (simp add: fresh_graph_def)
  show ?thesis
  proof (cases "node_objs h (dict_values (go_nodes g))")
    case (Inl x)
    then show ?thesis using op len Some fg
      by (simp add: modify_traffic_spike_def ext_refl)
  next
    case (Inr ns)
    then have "spike_resources mult g (filter (\<lambda>n. no_type n = RESOURCE) ns) h = (r, h')"
      using op Some by (simp add: modify_traffic_spike_def)
    from spike_resources_step[OF fo len this]
    have "ext n h h'" "graph_cell h' c = graph_cell h c" by simp_all
    then show ?thesis using fresh_graph_same[OF fg] by simp
  qed
qed

lemma add_edge_obj_sub:
  "add_edge_obj r e g = (res, g') \<Longrightarrow>
   go_nodes g' = go_nodes g \<and>
   (go_edges g' = go_edges g \<or> go_edges g' = dict_set (eo_id e) r (go_edges g))"
  by (auto simp: add_edge_obj_def Let_def split: if_splits option.splits)

lemma edge_cell_last: "edge_cell (h @ [EdgeCell e]) (length h) = Some e"
  by (simp add: edge_cell_def)

lemma contradict_targets_step:
  "n \<le> length h \<Longrightarrow> fresh_obj n h g \<Longrightarrow>
   contradict_targets uuid4 aid aname es g h = ((r, g'), h') \<Longrightarrow>
   ext n h h' \<and> fresh_obj n h' g'"
proof (induction es arbitrary: g h)
  case Nil
  then show ?case by (simp add: ext_refl)
next
  case (Cons edge rest)
  note len = Cons.prems(1) and fo = Cons.prems(2) and op = Cons.prems(3)
  show ?case
  proof (cases "eo_type edge = ASSUMES")
    case False
    then have "contradict_targets uuid4 aid aname rest g h = ((r, g'), h')" using op by simp
    from Cons.IH[OF len fo this] show ?thesis .
  next
    case True
    let ?m = "DictCell [(''reason'', VStr (''Assumption '' @ [CHR 0x27] @ aname @ [CHR 0x27]
                                  @ '' violated'')), (''severity'', VNum 0.85)]"
    let ?h1 = "h @ [?m]"
    let ?ce = "\<lparr>eo_id = uuid4 (length ?h1), eo_source = eo_target edge,
                 eo_target = aid, eo_type = CONTRADICTS, eo_weight = 1,
                 eo_confidence = 1, eo_metadata = length h\<rparr>"
    let ?h2 = "?h1 @ [EdgeCell ?ce]"
    have e1: "ext n h ?h1" by (rule ext_alloc[OF len]) simp_all
    have e2: "ext n ?h1 ?h2" by (rule ext_alloc[OF ext_len[OF e1]]) (use len in simp_all)
    have e12: "ext n h ?h2" by (rule ext_trans[OF e1 e2])
    obtain ra g1 where ae: "add_edge_obj (length ?h1) ?ce g = (ra, g1)"
      by (cases "add_edge_obj (length ?h1) ?ce g")
    have fo2: "fresh_obj n ?h2 g" by (rule fresh_obj_ext[OF fo e12])
    have ec: "edge_cell ?h2 (length ?h1) = Some ?ce" by (rule edge_cell_last)
    have fo1: "fresh_obj n ?h2 g1"
    proof -
      from add_edge_obj_sub[OF ae] have nn: "go_nodes g1 = go_nodes g"
        and ee: "go_edges g1 = go_edges g \<or> go_edges g1 = dict_set (eo_id ?ce) (length ?h1) (go_edges g)"
        by simp_all
      have "n \<le> x \<and> (\<forall>e. edge_cell ?h2 x = Some e \<longrightarrow> n \<le> eo_metadata e)"
        if "(k, x) \<in> set (go_edges g1)" for k x
      proof (cases "(k, x) \<in> set (go_edges g)")
        case True
        then show ?thesis using fo2 by (auto simp: fresh_obj_def)
      next
        case False
        then have "(k, x) = (eo_id ?ce, length ?h1)"
          using that ee dict_set_mem by fastforce
        then have "x = length ?h1" by simp
        then show ?thesis using ec len by simp
      qed
      then show ?thesis using fo2 nn unfolding fresh_obj_def by auto
    qed
    show ?thesis
    proof (cases ra)
      case (Inl x)
      then have "h' = ?h2" "g' = g1"
        using op True ae by (simp_all add: alloc_def Let_def)
      then show ?thesis using e12 fo1 by simp
    next
      case u: (Inr u)
      then have rec: "contradict_targets uuid4 aid aname rest g1 ?h2 = ((r, g'), h')"
        using op True ae by (simp add: alloc_def Let_def)
      have "ext n ?h2 h' \<and> fresh_obj n h' g'"
        by (rule Cons.IH[OF ext_len[OF e12] fo1 rec])
      then show ?thesis using e12 ext_trans by auto
    qed
  qed
qed

lemma violate_assumption_step:
  assumes fg: "fresh_graph n h c" and len: "n \<le> length h"
    and op: "modify_violate_assumption uuid4 aid c h = (r, h')"
  shows "ext n h h' \<and> fresh_graph n h' c"
proof (cases "graph_cell h c")
  case None
  then show ?thesis using op len fg
    by (simp add: modify_violate_assumption_def ext_refl)
next
  case (Some g)
  have nc: "n \<le> c" using fg by (simp add: fresh_graph_def)
  have cl: "c < length h" by (rule graph_cell_length[OF Some])
  have fo: "fresh_obj n h g" using fg Some by (simp add: fresh_graph_def)
  show ?thesis
  proof (cases "dict_get (go_nodes g) aid")
    case None
    then show ?thesis using op len Some fg
      by (simp add: modify_violate_assumption_def ext_refl)
  next
    case a: (Some aref)
    show ?thesis
    proof (cases "node_cell h aref")
      case None
      then show ?thesis using op len Some a fg
        by (simp add: modify_violate_assumption_def ext_refl)
    next
      case nd: (Some nd)
      show ?thesis
      proof (cases "lookup_edge_objs h (go_edges g) (bucket (go_adjacency g) aid)")
        case (Inl x)
        then show ?thesis using op len Some a nd fg
          by (simp add: modify_violate_assumption_def ext_refl)
      next
        case (Inr outgoing)
        obtain r1 g1 h1 where ct:
          "contradict_targets uuid4 aid (no_name nd) outgoing g h = ((r1, g1), h1)"
          by (cases "contradict_targets uuid4 aid (no_name nd) outgoing g h") auto
        have s: "ext n h h1" "fresh_obj n h1 g1"
          using contradict_targets_step[OF len fo ct] by simp_all
        have h': "h' = h1[c := GraphCell g1]"
          using op Some a nd Inr ct by (simp add: modify_violate_assumption_def)
        have l1: "n \<le> length h1" by (rule ext_len[OF s(1)])
        have c1: "c < length h1" using cl s(1) by (simp add: ext_def)
        have e2: "ext n h1 (h1[c := GraphCell g1])" by (rule ext_write_graph[OF l1 nc])
        show ?thesis
          unfolding h' using ext_trans[OF s(1) e2] fresh_graph_write[OF nc l1 c1 s(2)] by simp
      qed
    qed
  qed
qed

lemma modification_step:
  assumes fg: "fresh_graph n h c" and len: "n \<le> length h"
    and op: "apply_modification uuid4 m c h = (r, h')"
  shows "ext n h h' \<and> fresh_graph n h' c"
proof (cases m)
  case (TrafficSpike mult)
  then have "modify_traffic_spike mult c h = (r, h')" using op by simp
  then show ?thesis by (rule traffic_spike_step[OF fg len])
next
  case (NodeFailure k)
  then have "modify_node_failure k c h = (r, h')" using op by simp
  then show ?thesis by (rule node_failure_step[OF fg len])
next
  case (RemoveResource k)
  then have "modify_remove_resource k c h = (r, h')" using op by simp
  then show ?thesis by (rule remove_resource_step[OF fg len])
next
  case (ViolateAssumption k)
  then have "modify_violate_assumption uuid4 k c h = (r, h')" using op by simp
  then show ?thesis by (rule violate_assumption_step[OF fg len])
qed

lemma modifications_step:
  "fresh_graph n h c \<Longrightarrow> n \<le> length h \<Longrightarrow> apply_modifications uuid4 ms c h = (r, h') \<Longrightarrow>
   ext n h h' \<and> fresh_graph n h' c"
proof (induction ms arbitrary: h)
  case Nil
  then show ?case by (simp add: ext_refl)
next
  case (Cons m ms)
  obtain r1 h1 where m1: "apply_modification uuid4 m c h = (r1, h1)"
    by (cases "apply_modification uuid4 m c h")
  have s: "ext n h h1" "fresh_graph n h1 c"
    using modification_step[OF Cons.prems(1,2) m1] by simp_all
  show ?case
  proof (cases r1)
    case (Inl x)
    then have "h' = h1" using Cons.prems(3) m1 by simp
    then show ?thesis using s by simp
  next
    case (Inr u)
    then have "apply_modifications uuid4 ms c h1 = (r, h')" using Cons.prems(3) m1 by simp
    from Cons.IH[OF s(2) ext_len[OF s(1)] this]
    show ?thesis using s(1) ext_trans by blast
  qed
qed

lemma fresh_obj_node_ref:
  assumes "fresh_obj n h g" "r \<in> snd ` set (go_nodes g)"
  shows "n \<le> r" and "node_cell h r = Some nd \<Longrightarrow> n \<le> no_metadata nd"
proof -
  from assms(2) obtain k where k: "(k, r) \<in> set (go_nodes g)" by auto
  then have "n \<le> r \<and> (\<forall>nd. node_cell h r = Some nd \<longrightarrow> n \<le> no_metadata nd)"
    using assms(1) unfolding fresh_obj_def by blast
  then show "n \<le> r" and "node_cell h r = Some nd \<Longrightarrow> n \<le> no_metadata nd" by simp_all
qed

lemma fresh_obj_edge_ref:
  assumes "fresh_obj n h g" "r \<in> snd ` set (go_edges g)"
  shows "n \<le> r" and "edge_cell h r = Some e \<Longrightarrow> n \<le> eo_metadata e"
proof -
  from assms(2) obtain k where k: "(k, r) \<in> set (go_edges g)" by auto
  then have "n \<le> r \<and> (\<forall>e. edge_cell h r = Some e \<longrightarrow> n \<le> eo_metadata e)"
    using assms(1) unfolding fresh_obj_def by blast
  then show "n \<le> r" and "edge_cell h r = Some e \<Longrightarrow> n \<le> eo_metadata e" by simp_all
qed

lemma fresh_graph_refs:
  assumes "fresh_graph n h c" "x \<in> graph_refs h c"
  shows "n \<le> x"
proof (cases "graph_cell h c")
  case None
  then show ?thesis using assms by (simp add: graph_refs_def fresh_graph_def)
next
  case (Some g)
  then have fo: "fresh_obj n h g" and nc: "n \<le> c" using assms(1) by (simp_all add: fresh_graph_def)
  from assms(2) Some have "x = c \<or> x \<in> snd ` set (go_nodes g) \<or> x \<in> snd ` set (go_edges g)
      \<or> (\<exists>r nd. r \<in> snd ` set (go_nodes g) \<and> node_cell h r = Some nd \<and> x = no_metadata nd)
      \<or> (\<exists>r e. r \<in> snd ` set (go_edges g) \<and> edge_cell h r = Some e \<and> x = eo_metadata e)"
    by (simp add: graph_refs_def)
  then show ?thesis
  proof (elim disjE exE conjE)
    assume "x = c"
    then show ?thesis using nc by simp
  next
    assume "x \<in> snd ` set (go_nodes g)"
    then show ?thesis by (rule fresh_obj_node_ref(1)[OF fo])
  next
    assume "x \<in> snd ` set (go_edges g)"
    then show ?thesis by (rule fresh_obj_edge_ref(1)[OF fo])
  next
    fix r nd assume "r \<in> snd ` set (go_nodes g)" "node_cell h r = Some nd" "x = no_metadata nd"
    then show ?thesis using fresh_obj_node_ref(2)[OF fo] by simp
  next
    fix r e assume "r \<in> snd ` set (go_edges g)" "edge_cell h r = Some e" "x = eo_metadata e"
    then show ?thesis using fresh_obj_edge_ref(2)[OF fo] by simp
  qed
qed

lemma node_cell_last: "node_cell (h @ [NodeCell nd]) (length h) = Some nd"
  by (simp add: node_cell_def)

lemma deepcopy_node_step:
  assumes len: "n \<le> length h" and op: "deepcopy_node r h = (res, h1)"
  shows "ext n h h1 \<and>
         (\<forall>new. res = Inr new \<longrightarrow>
            n \<le> new \<and> (\<forall>nd. node_cell h1 new = Some nd \<longrightarrow> n \<le> no_metadata nd))"
proof (cases "node_cell h r")
  case None
  then show ?thesis using op len by (auto simp: deepcopy_node_def ext_refl)
next
  case nd: (Some nd)
  show ?thesis
  proof (cases "dict_cell h (no_metadata nd)")
    case None
    then show ?thesis using op len nd by (auto simp: deepcopy_node_def ext_refl)
  next
    case (Some m)
    let ?h1 = "h @ [DictCell m]"
    let ?nd = "nd\<lparr>no_metadata := length h\<rparr>"
    let ?h2 = "?h1 @ [NodeCell ?nd]"
    have r: "res = Inr (length ?h1)" "h1 = ?h2"
      using op nd Some by (simp_all add: deepcopy_node_def alloc_def Let_def)
    have e1: "ext n h ?h1" by (rule ext_alloc[OF len]) simp_all
    have e2: "ext n ?h1 ?h2" by (rule ext_alloc[OF ext_len[OF e1]]) (use len in simp_all)
    have nc: "node_cell ?h2 (length ?h1) = Some ?nd" by (rule node_cell_last)
    show ?thesis
      unfolding r using ext_trans[OF e1 e2] nc len by simp
  qed
qed

lemma deepcopy_edge_step:
  assumes len: "n \<le> length h" and op: "deepcopy_edge r h = (res, h1)"
  shows "ext n h h1 \<and>
         (\<forall>new. res = Inr new \<longrightarrow>
            n \<le> new \<and> (\<forall>e. edge_cell h1 new = Some e \<longrightarrow> n \<le> eo_metadata e))"
proof (cases "edge_cell h r")
  case None
  then show ?thesis using op len by (auto simp: deepcopy_edge_def ext_refl)
next
  case e: (Some e)
  show ?thesis
  proof (cases "dict_cell h (eo_metadata e)")
    case None
    then show ?thesis using op len e by (auto simp: deepcopy_edge_def ext_refl)
  next
    case (Some m)
    let ?h1 = "h @ [DictCell m]"
    let ?e = "e\<lparr>eo_metadata := length h\<rparr>"
    let ?h2 = "?h1 @ [EdgeCell ?e]"
    have r: "res = Inr (length ?h1)" "h1 = ?h2"
      using op e Some by (simp_all add: deepcopy_edge_def alloc_def Let_def)
    have e1: "ext n h ?h1" by (rule ext_alloc[OF len]) simp_all
    have e2: "ext n ?h1 ?h2" by (rule ext_alloc[OF ext_len[OF e1]]) (use len in simp_all)
    have ec: "edge_cell ?h2 (length ?h1) = Some ?e" by (rule edge_cell_last)
    show ?thesis
      unfolding r using ext_trans[OF e1 e2] ec len by simp
  qed
qed

lemma fresh_obj_add_node:
  assumes fo: "fresh_obj n h g" and nr: "n \<le> r"
    and nm: "\<And>nd. node_cell h r = Some nd \<Longrightarrow> n \<le> no_metadata nd"
    and gn: "go_nodes g' = dict_set k r (go_nodes g)" and ge: "go_edges g' = go_edges g"
  shows "fresh_obj n h g'"
proof -
  have "n \<le> x \<and> (\<forall>nd. node_cell h x = Some nd \<longrightarrow> n \<le> no_metadata nd)"
    if "(k', x) \<in> set (go_nodes g')" for k' x
  proof -
    from that gn have "(k', x) \<in> set (dict_set k r (go_nodes g))" by simp
    then have "(k', x) = (k, r) \<or> (k', x) \<in> set (go_nodes g)" by (rule dict_set_mem)
    then show ?thesis using fo nr nm by (auto simp: fresh_obj_def)
  qed
  then show ?thesis using fo ge unfolding fresh_obj_def by auto
qed

lemma fresh_obj_add_edge:
  assumes fo: "fresh_obj n h g" and nr: "n \<le> r"
    and nm: "\<And>e. edge_cell h r = Some e \<Longrightarrow> n \<le> eo_metadata e"
    and gn: "go_edges g' = dict_set k r (go_edges g)" and ge: "go_nodes g' = go_nodes g"
  shows "fresh_obj n h g'"
proof -
  have "n \<le> x \<and> (\<forall>e. edge_cell h x = Some e \<longrightarrow> n \<le> eo_metadata e)"
    if "(k', x) \<in> set (go_edges g')" for k' x
  proof -
    from that gn have "(k', x) \<in> set (dict_set k r (go_edges g))" by simp
    then have "(k', x) = (k, r) \<or> (k', x) \<in> set (go_edges g)" by (rule dict_set_mem)
    then show ?thesis using fo nr nm by (auto simp: fresh_obj_def)
  qed
  then show ?thesis using fo ge unfolding fresh_obj_def by auto
qed

lemma clone_nodes_step:
  "n \<le> length h \<Longrightarrow> fresh_obj n h g \<Longrightarrow> clone_nodes d g h = (res, h') \<Longrightarrow>
   ext n h h' \<and> (\<forall>g'. res = Inr g' \<longrightarrow> fresh_obj n h' g')"
proof (induction d arbitrary: g h)
  case Nil
  then show ?case by (auto simp: ext_refl)
next
  case (Cons p rest)
  obtain node_id node where p: "p = (node_id, node)" by (cases p)
  note len = Cons.prems(1) and fo = Cons.prems(2) and op = Cons.prems(3)
  obtain r1 h1 where dc: "deepcopy_node node h = (r1, h1)" by (cases "deepcopy_node node h")
  have s: "ext n h h1"
    "\<And>new. r1 = Inr new \<Longrightarrow> n \<le> new \<and> (\<forall>nd. node_cell h1 new = Some nd \<longrightarrow> n \<le> no_metadata nd)"
    using deepcopy_node_step[OF len dc] by simp_all
  show ?case
  proof (cases r1)
    case (Inl x)
    then have "h' = h1" "res = Inl x" using op p dc by simp_all
    then show ?thesis using s(1) by simp
  next
    case (Inr new)
    show ?thesis
    proof (cases "node_cell h1 new")
      case None
      then have "h' = h1" "res = Inl Dangling" using op p dc Inr by simp_all
      then show ?thesis using s(1) by simp
    next
      case (Some nd)
      let ?g = "g\<lparr>go_nodes := dict_set (no_id nd) new (go_nodes g),
                   go_adjacency := dict_set (no_id nd) [] (go_adjacency g),
                   go_reverse_adjacency := dict_set (no_id nd) [] (go_reverse_adjacency g)\<rparr>"
      have rec: "clone_nodes rest ?g h1 = (res, h')" using op p dc Inr Some by simp
      have "fresh_obj n h1 ?g"
        by (rule fresh_obj_add_node[OF fresh_obj_ext[OF fo s(1)], of new "?g" "no_id nd"])
           (use s(2)[OF Inr] in simp_all)
      from Cons.IH[OF ext_len[OF s(1)] this rec] show ?thesis
        using s(1) ext_trans by blast
    qed
  qed
qed

lemma clone_edges_step:
  "n \<le> length h \<Longrightarrow> fresh_obj n h g \<Longrightarrow> clone_edges d g h = (res, h') \<Longrightarrow>
   ext n h h' \<and> (\<forall>g'. res = Inr g' \<longrightarrow> fresh_obj n h' g')"
proof (induction d arbitrary: g h)
  case Nil
  then show ?case by (auto simp: ext_refl)
next
  case (Cons p rest)
  obtain edge_id edge where p: "p = (edge_id, edge)" by (cases p)
  note len = Cons.prems(1) and fo = Cons.prems(2) and op = Cons.prems(3)
  obtain r1 h1 where dc: "deepcopy_edge edge h = (r1, h1)" by (cases "deepcopy_edge edge h")
  have s: "ext n h h1"
    "\<And>new. r1 = Inr new \<Longrightarrow> n \<le> new \<and> (\<forall>e. edge_cell h1 new = Some e \<longrightarrow> n \<le> eo_metadata e)"
    using deepcopy_edge_step[OF len dc] by simp_all
  show ?case
  proof (cases r1)
    case (Inl x)
    then have "h' = h1" "res = Inl x" using op p dc by simp_all
    then show ?thesis using s(1) by simp
  next
    case (Inr new)
    show ?thesis
    proof (cases "edge_cell h1 new")
      case None
      then have "h' = h1" "res = Inl Dangling" using op p dc Inr by simp_all
      then show ?thesis using s(1) by simp
    next
      case (Some e)
      let ?g1 = "g\<lparr>go_edges := dict_set (eo_id e) new (go_edges g)\<rparr>"
      show ?thesis
      proof (cases "dict_get (go_adjacency ?g1) (eo_source e)")
        case None
        then have "h' = h1" "\<exists>x. res = Inl x" using op p dc Inr Some by (auto simp: Let_def)
        then show ?thesis using s(1) by auto
      next
        case out: (Some out)
        let ?g2 = "?g1\<lparr>go_adjacency := dict_set (eo_source e) (set_add (eo_id e) out)
                                            (go_adjacency ?g1)\<rparr>"
        show ?thesis
        proof (cases "dict_get (go_reverse_adjacency ?g2) (eo_target e)")
          case None
          then have "h' = h1" "\<exists>x. res = Inl x"
            using op p dc Inr Some out by (auto simp: Let_def)
          then show ?thesis using s(1) by auto
        next
          case inc: (Some inc)
          let ?g3 = "?g2\<lparr>go_reverse_adjacency :=
                           dict_set (eo_target e) (set_add (eo_id e) inc)
                             (go_reverse_adjacency ?g2)\<rparr>"
          have rec: "clone_edges rest ?g3 h1 = (res, h')"
            using op p dc Inr Some out inc by (simp add: Let_def)
          have "fresh_obj n h1 ?g3"
            by (rule fresh_obj_add_edge[OF fresh_obj_ext[OF fo s(1)], of new "?g3" "eo_id e"])
               (use s(2)[OF Inr] in simp_all)
          from Cons.IH[OF ext_len[OF s(1)] this rec] show ?thesis
            using s(1) ext_trans by blast
        qed
      qed
    qed
  qed
qed

lemma clone_graph_step:
  assumes op: "clone_graph b h = (res, h')"
  shows "ext (length h) h h' \<and> (\<forall>c. res = Inr c \<longrightarrow> fresh_graph (length h) h' c)"
proof (cases "graph_cell h b")
  case None
  then show ?thesis using op by (auto simp: clone_graph_def ext_refl)
next
  case (Some g)
  let ?n = "length h"
  let ?h0 = "h @ [GraphCell empty_graph_obj]"
  have e0: "ext ?n h ?h0" by (rule ext_alloc) simp_all
  have f0: "fresh_obj ?n ?h0 empty_graph_obj" by (simp add: fresh_obj_def empty_graph_obj_def)
  obtain r1 h1 where cn: "clone_nodes (go_nodes g) empty_graph_obj ?h0 = (r1, h1)"
    by (cases "clone_nodes (go_nodes g) empty_graph_obj ?h0")
  have s1: "ext ?n ?h0 h1" "\<And>g1. r1 = Inr g1 \<Longrightarrow> fresh_obj ?n h1 g1"
    using clone_nodes_step[OF ext_len[OF e0] f0 cn] by simp_all
  have e01: "ext ?n h h1" by (rule ext_trans[OF e0 s1(1)])
  show ?thesis
  proof (cases r1)
    case (Inl x)
    then have "h' = h1" "res = Inl x" using op Some cn by (simp_all add: clone_graph_def alloc_def)
    then show ?thesis using e01 by simp
  next
    case g1: (Inr g1)
    obtain r2 h2 where ce: "clone_edges (go_edges g) g1 h1 = (r2, h2)"
      by (cases "clone_edges (go_edges g) g1 h1")
    have s2: "ext ?n h1 h2" "\<And>g2. r2 = Inr g2 \<Longrightarrow> fresh_obj ?n h2 g2"
      using clone_edges_step[OF ext_len[OF e01] s1(2)[OF g1] ce] by simp_all
    have e02: "ext ?n h h2" by (rule ext_trans[OF e01 s2(1)])
    show ?thesis
    proof (cases r2)
      case (Inl x)
      then have "h' = h2" "res = Inl x"
        using op Some cn g1 ce by (simp_all add: clone_graph_def alloc_def)
      then show ?thesis using e02 by simp
    next
      case g2: (Inr g2)
      have r: "h' = h2[?n := GraphCell g2]" "res = Inr ?n"
        using op Some cn g1 ce g2 by (simp_all add: clone_graph_def alloc_def)
      have l2: "?n < length h2"
        using e0 s1(1) s2(1) by (simp add: ext_def)
      have e3: "ext ?n h2 (h2[?n := GraphCell g2])"
        by (rule ext_write_graph[OF ext_len[OF e02]]) simp
      have "fresh_graph ?n (h2[?n := GraphCell g2]) ?n"
        by (rule fresh_graph_write[OF _ ext_len[OF e02] l2 s2(2)[OF g2]]) simp
      then show ?thesis unfolding r using ext_trans[OF e02 e3] by simp
    qed
  qed
qed

lemma clone_and_modify_step:
  assumes op: "clone_and_modify uuid4 ms b h = (r, h')"
  shows "ext (length h) h h' \<and> (\<forall>c. r = Inr c \<longrightarrow> fresh_graph (length h) h' c)"
proof -
  obtain r1 h1 where cg: "clone_graph b h = (r1, h1)" by (cases "clone_graph b h")
  have s1: "ext (length h) h h1" "\<And>c. r1 = Inr c \<Longrightarrow> fresh_graph (length h) h1 c"
    using clone_graph_step[OF cg] by simp_all
  show ?thesis
  proof (cases r1)
    case (Inl x)
    then have "h' = h1" "r = Inl x" using op cg by (simp_all add: clone_and_modify_def)
    then show ?thesis using s1(1) by simp
  next
    case c: (Inr c)
    obtain r2 h2 where am: "apply_modifications uuid4 ms c h1 = (r2, h2)"
      by (cases "apply_modifications uuid4 ms c h1")
    have s2: "ext (length h) h1 h2" "fresh_graph (length h) h2 c"
      using modifications_step[OF s1(2)[OF c] ext_len[OF s1(1)] am] by simp_all
    have e: "ext (length h) h h2" by (rule ext_trans[OF s1(1) s2(1)])
    show ?thesis
    proof (cases r2)
      case (Inl x)
      then have "h' = h2" "r = Inl x" using op cg c am by (simp_all add: clone_and_modify_def)
      then show ?thesis using e by simp
    next
      case (Inr u)
      then have "h' = h2" "r = Inr c" using op cg c am by (simp_all add: clone_and_modify_def)
      then show ?thesis using e s2(2) by simp
    qed
  qed
qed

lemma prefix_cells:
  assumes "take (length h) h' = h"
  shows "graph_cell h r = Some g \<Longrightarrow> graph_cell h' r = Some g"
    and "node_cell h r = Some nd \<Longrightarrow> node_cell h' r = Some nd"
    and "edge_cell h r = Some e \<Longrightarrow> edge_cell h' r = Some e"
    and "dict_cell h r = Some m \<Longrightarrow> dict_cell h' r = Some m"
proof -
  have "length (take (length h) h') = length h" using assms by simp
  then have len: "length h \<le> length h'" by simp
  have "r < length h \<Longrightarrow> take (length h) h' ! r = h' ! r" by simp
  then have nth: "r < length h \<Longrightarrow> h' ! r = h ! r" using assms by simp
  show "graph_cell h r = Some g \<Longrightarrow> graph_cell h' r = Some g"
    using len nth by (auto simp: graph_cell_def split: if_splits)
  show "node_cell h r = Some nd \<Longrightarrow> node_cell h' r = Some nd"
    using len nth by (auto simp: node_cell_def split: if_splits)
  show "edge_cell h r = Some e \<Longrightarrow> edge_cell h' r = Some e"
    using len nth by (auto simp: edge_cell_def split: if_splits)
  show "dict_cell h r = Some m \<Longrightarrow> dict_cell h' r = Some m"
    using len nth by (auto simp: dict_cell_def split: if_splits)
qed

lemma prefix_node_of:
  assumes "take (length h) h' = h" "node_of h r = Some v"
  shows "node_of h' r = Some v"
proof -
  from assms(2) obtain nd m where a: "node_cell h r = Some nd" "dict_cell h (no_metadata nd) = Some m"
    by (auto simp: node_of_def split: option.splits)
  have "node_cell h' r = Some nd" "dict_cell h' (no_metadata nd) = Some m"
    using prefix_cells(2,4)[OF assms(1)] a by simp_all
  then show ?thesis using assms(2) a by (simp add: node_of_def)
qed

lemma prefix_edge_of:
  assumes "take (length h) h' = h" "edge_of h r = Some v"
  shows "edge_of h' r = Some v"
proof -
  from assms(2) obtain e m where a: "edge_cell h r = Some e" "dict_cell h (eo_metadata e) = Some m"
    by (auto simp: edge_of_def split: option.splits)
  have "edge_cell h' r = Some e" "dict_cell h' (eo_metadata e) = Some m"
    using prefix_cells(3,4)[OF assms(1)] a by simp_all
  then show ?thesis using assms(2) a by (simp add: edge_of_def)
qed

lemma deref_all_mono:
  assumes "\<And>r v. f r = Some v \<Longrightarrow> f' r = Some v"
  shows "deref_all f d = Some xs \<Longrightarrow> deref_all f' d = Some xs"
proof (induction d arbitrary: xs)
  case Nil
  then show ?case by simp
next
  case (Cons p d)
  obtain k r where p: "p = (k, r)" by (cases p)
  from Cons.prems p obtain x ys where x: "f r = Some x" "deref_all f d = Some ys" "xs = (k, x) # ys"
    by (auto split: option.splits)
  show ?case using p x assms[OF x(1)] Cons.IH[OF x(2)] by simp
qed

lemma prefix_graph_of:
  assumes p: "take (length h) h' = h" and g: "graph_of h x = Some G"
  shows "graph_of h' x = Some G"
proof -
  from g obtain go ns es where a: "graph_cell h x = Some go"
    "deref_all (node_of h) (go_nodes go) = Some ns"
    "deref_all (edge_of h) (go_edges go) = Some es"
    by (auto simp: graph_of_def split: option.splits)
  have "graph_cell h' x = Some go" by (rule prefix_cells(1)[OF p a(1)])
  moreover have "deref_all (node_of h') (go_nodes go) = Some ns"
    by (rule deref_all_mono[OF prefix_node_of[OF p] a(2)])
  moreover have "deref_all (edge_of h') (go_edges go) = Some es"
    by (rule deref_all_mono[OF prefix_edge_of[OF p] a(3)])
  ultimately show ?thesis using g a by (simp add: graph_of_def)
qed

text \<open>
  Claim C7. A scenario is evaluated by \<open>_clone_graph\<close> followed by the scenario's mutation
  operators, all of which act on the clone. For every store, base graph, operator list and
  identifier source: the cells of the store that existed before the scenario are unchanged,
  so every graph stored there (the base graph with its nodes, edges, both adjacency indices
  and every metadata value, and the clone of every earlier scenario) has the same value
  afterwards; and every mutable object of the resulting clone (the graph object, its node and
  edge objects, their metadata dicts) was allocated during this scenario, so the clone shares
  no mutable state with the base graph or with the clone of any other scenario.
\<close>

theorem clone_mutation_frame:
  assumes "clone_and_modify uuid4 ms base_graph h = (r, h')"
  shows "take (length h) h' = h
       \<and> (\<forall>x G. graph_of h x = Some G \<longrightarrow> graph_of h' x = Some G)
       \<and> (\<forall>c. r = Inr c \<longrightarrow> (\<forall>x \<in> graph_refs h' c. length h \<le> x))"
proof -
  have s: "ext (length h) h h'" "\<And>c. r = Inr c \<Longrightarrow> fresh_graph (length h) h' c"
    using clone_and_modify_step[OF assms] by simp_all
  have t: "take (length h) h' = h" using s(1) by (simp add: ext_def)
  have g: "\<forall>x G. graph_of h x = Some G \<longrightarrow> graph_of h' x = Some G"
    using prefix_graph_of[OF t] by simp
  have f: "\<forall>c. r = Inr c \<longrightarrow> (\<forall>x \<in> graph_refs h' c. length h \<le> x)"
    using fresh_graph_refs[OF s(2)] by simp
  show ?thesis using t g f by simp
qed

theorem clone_mutation_frame_witness:
  "fst (clone_and_modify c7_uuid4 [NodeFailure ''R1''] 6 c7_heap) = Inr 7
   \<and> map_option (\<lambda>G. (length (nodes G), length (edges G))) (graph_of c7_heap 6) = Some (2, 1)
   \<and> map_option (\<lambda>G. (length (nodes G), length (edges G))) (graph_of c7_after 7) = Some (1, 0)
   \<and> take (length c7_heap) c7_after = c7_heap
   \<and> graph_of c7_after 6 = graph_of c7_heap 6
   \<and> fst (clone_and_modify c7_uuid4 [RemoveResource ''R1'', TrafficSpike 3] 6 c7_after) = Inr 14
   \<and> take (length c7_after) c7_after2 = c7_after
   \<and> graph_of c7_after2 7 = graph_of c7_after 7
   \<and> graph_of c7_after2 6 = graph_of c7_heap 6"
proof -
  have a: "clone_and_modify c7_uuid4 [NodeFailure ''R1''] 6 c7_heap
            = (fst (clone_and_modify c7_uuid4 [NodeFailure ''R1''] 6 c7_heap), c7_after)"
    by (simp add: c7_after_def)
  have b: "clone_and_modify c7_uuid4 [RemoveResource ''R1'', TrafficSpike 3] 6 c7_after
            = (fst (clone_and_modify c7_uuid4 [RemoveResource ''R1'', TrafficSpike 3] 6 c7_after),
               c7_after2)"
    by (simp add: c7_after2_def)
  have g0: "graph_of c7_heap 6 \<noteq> None" by code_simp
  have g1: "graph_of c7_after 7 \<noteq> None" by code_simp
  have r1: "fst (clone_and_modify c7_uuid4 [NodeFailure ''R1''] 6 c7_heap) = Inr 7" by code_simp
  have r2: "fst (clone_and_modify c7_uuid4 [RemoveResource ''R1'', TrafficSpike 3] 6 c7_after)
              = Inr 14" by code_simp
  have c0: "map_option (\<lambda>G. (length (nodes G), length (edges G))) (graph_of c7_heap 6)
              = Some (2, 1)" by code_simp
  have c1: "map_option (\<lambda>G. (length (nodes G), length (edges G))) (graph_of c7_after 7)
              = Some (1, 0)" by code_simp
  from clone_mutation_frame[OF a] g0
  have f1: "take (length c7_heap) c7_after = c7_heap" "graph_of c7_after 6 = graph_of c7_heap 6"
    by auto
  from clone_mutation_frame[OF b] g1 g0 f1(2)
  have f2: "take (length c7_after) c7_after2 = c7_after"
    "graph_of c7_after2 7 = graph_of c7_after 7" "graph_of c7_after2 6 = graph_of c7_heap 6"
    by auto
  show ?thesis using r1 r2 c0 c1 f1 f2 by simp
qed

end
